theory Spec2Isabelle
  imports Main
begin

section \<open>Data model of the task scheduler (source/task_scheduler.cpp)\<close>

text \<open>
  The scheduler is embedded as explicit state passing. Every member function of
  \<open>TaskScheduler\<close> takes the scheduler state and the identifier of the OS thread that
  executes the call and returns the new state, or an error where the C++ has undefined
  behaviour (an array index outside its array, a pointer that names no live object).
  C arrays are lists whose length is the allocated size. A fiber switch is not executed by
  the model: a function that reaches \<open>SwitchToFiber\<close> returns the state at the switch
  together with the pair of fibers switched between.
\<close>

type_synonym thread_id = nat
type_synonym fiber_index = nat
type_synonym counter_ptr = nat
type_synonym flag_ptr = nat

text \<open>
  Modelled from the spec: the sentinel invalid index. The macro \<open>FTL_INVALID_INDEX\<close> is
  used by task_scheduler.cpp but defined in a header that is not part of the sources. It is
  taken as the largest \<open>unsigned int\<close>; thread and fiber counts are passed to \<open>Run\<close> as
  \<open>uint\<close>, and the theorems below use nothing of the value but that it is not below the
  number of threads and is not a fiber index stored in a waiting list.
\<close>

definition FTL_INVALID_INDEX :: nat where
  "FTL_INVALID_INDEX = 4294967295"

datatype FiberDestination = DestNone | ToPool | ToWaiting

datatype memory_order =
  memory_order_relaxed | memory_order_consume | memory_order_acquire
  | memory_order_release | memory_order_acq_rel | memory_order_seq_cst

text \<open>
  A \<open>std::atomic<bool>\<close>: the flag it holds and the memory order argument of the store that
  wrote it (\<open>None\<close> while it still holds the value it was constructed with).
\<close>

record atomic_bool =
  held :: bool
  stored_with :: "memory_order option"

definition atomic_new :: "bool \<Rightarrow> atomic_bool" where
  "atomic_new b = \<lparr>held = b, stored_with = None\<rparr>"

definition atomic_store :: "bool \<Rightarrow> memory_order \<Rightarrow> atomic_bool" where
  "atomic_store b mo = \<lparr>held = b, stored_with = Some mo\<rparr>"

definition atomic_load :: "atomic_bool \<Rightarrow> memory_order \<Rightarrow> bool" where
  "atomic_load a mo = held a"

record Task =
  Function :: nat
  ArgData :: nat

record TaskBundle =
  TaskToExecute :: Task
  Counter :: "counter_ptr option"

record PinnedWaitingFiberBundle =
  FiberIndex :: fiber_index
  Counter :: counter_ptr
  TargetValue :: nat

record ThreadLocalStorage =
  CurrentFiberIndex :: fiber_index
  OldFiberIndex :: fiber_index
  OldFiberDestination :: FiberDestination
  TaskQueue :: "TaskBundle list"
  LastSuccessfulSteal :: nat
  OldFiberStoredFlag :: flag_ptr
  ReadyFibers :: "(fiber_index \<times> flag_ptr) list"
  PinnedTasks :: "PinnedWaitingFiberBundle list"

text \<open>
  Modelled from the spec: \<open>AtomicCounter\<close> (ftl/atomic_counter.h is not part of the
  sources). "An atomic integer plus a small bounded set of waiting-fiber slots. Each slot
  records (fiberIndex, targetValue, storedFlag, inUse)." A slot that is not in use is
  \<open>None\<close>; one in use is \<open>Some (fiberIndex, targetValue, storedFlag)\<close>.
\<close>

record AtomicCounter =
  m_value :: nat
  m_waitingFibers :: "(fiber_index \<times> nat \<times> flag_ptr) option list"

text \<open>
  The scheduler. \<open>m_threads\<close> holds the OS thread identifier of every worker,
  \<open>m_freeFibers\<close> the free flag of every fiber of the pool, \<open>m_tls\<close> the thread-local storage
  of every worker. \<open>counters\<close> and \<open>storedFlags\<close> are the heap: the \<open>AtomicCounter\<close> objects
  by address, and the \<open>std::atomic<bool>\<close> objects allocated with \<open>new\<close> by
  \<open>WaitForCounter\<close>, each with its address.
\<close>

record TaskScheduler =
  m_threads :: "thread_id list"
  m_freeFibers :: "atomic_bool list"
  m_tls :: "ThreadLocalStorage list"
  counters :: "counter_ptr \<Rightarrow> AtomicCounter"
  storedFlags :: "(flag_ptr \<times> atomic_bool) list"

text \<open>\<open>Run\<close> sizes \<open>m_threads\<close> to \<open>m_numThreads\<close> and the pool arrays to \<open>m_fiberPoolSize\<close>.\<close>

definition m_numThreads :: "TaskScheduler \<Rightarrow> nat" where
  "m_numThreads s = length (m_threads s)"

definition m_fiberPoolSize :: "TaskScheduler \<Rightarrow> nat" where
  "m_fiberPoolSize s = length (m_freeFibers s)"

datatype error =
  TlsIndexOutOfBounds nat
  | FiberIndexOutOfBounds nat
  | TaskIndexOutOfBounds nat
  | InvalidFlagPointer flag_ptr
  | NoWaitingSlot

datatype outcome =
  Returned
  | SwitchToFiber fiber_index fiber_index
  | Execute TaskBundle
  | EmptyQueue

section \<open>Thread lookup and thread-local storage\<close>

text \<open>
  \<open>GetCurrentThreadIndex\<close> (lines 299-317): the index of the first entry of \<open>m_threads\<close>
  that is the calling thread, \<open>FTL_INVALID_INDEX\<close> when there is none.
\<close>

fun GetCurrentThreadIndex_loop :: "thread_id list \<Rightarrow> thread_id \<Rightarrow> nat \<Rightarrow> nat" where
  "GetCurrentThreadIndex_loop [] me i = FTL_INVALID_INDEX"
| "GetCurrentThreadIndex_loop (t # ts) me i =
     (if t = me then i else GetCurrentThreadIndex_loop ts me (Suc i))"

definition GetCurrentThreadIndex :: "TaskScheduler \<Rightarrow> thread_id \<Rightarrow> nat" where
  "GetCurrentThreadIndex s me = GetCurrentThreadIndex_loop (m_threads s) me 0"

text \<open>A write through the reference \<open>tls = m_tls[idx]\<close>.\<close>

definition tls_update ::
  "TaskScheduler \<Rightarrow> nat \<Rightarrow> (ThreadLocalStorage \<Rightarrow> ThreadLocalStorage) \<Rightarrow> TaskScheduler" where
  "tls_update s idx f = s\<lparr>m_tls := (m_tls s)[idx := f (m_tls s ! idx)]\<rparr>"

section \<open>Collaborators that are not part of the sources\<close>

text \<open>
  Modelled from the spec: \<open>WorkStealingQueue\<close> (its header is not part of the sources).
  "One worker (the owner) pushes to and pops from the bottom; any worker may steal from the
  top." The queue is the list of its bundles, top first. \<open>Pop\<close> and \<open>Steal\<close> fail on the
  empty queue; a steal lost to a concurrent consumer is not modelled.
\<close>

definition Push :: "TaskBundle list \<Rightarrow> TaskBundle \<Rightarrow> TaskBundle list" where
  "Push q b = q @ [b]"

definition Pop :: "TaskBundle list \<Rightarrow> (TaskBundle \<times> TaskBundle list) option" where
  "Pop q = (if q = [] then None else Some (last q, butlast q))"

definition Steal :: "TaskBundle list \<Rightarrow> (TaskBundle \<times> TaskBundle list) option" where
  "Steal q = (case q of [] \<Rightarrow> None | b # q' \<Rightarrow> Some (b, q'))"

text \<open>
  Modelled from the spec: the operations of \<open>AtomicCounter\<close>. "store(value), load() ->
  value, fetchSub(1): standard atomic ops".
\<close>

definition Load :: "TaskScheduler \<Rightarrow> counter_ptr \<Rightarrow> nat" where
  "Load s c = m_value (counters s c)"

definition Store :: "TaskScheduler \<Rightarrow> counter_ptr \<Rightarrow> nat \<Rightarrow> TaskScheduler" where
  "Store s c x = s\<lparr>counters := (counters s)(c := (counters s c)\<lparr>m_value := x\<rparr>)\<rparr>"

fun find_free_slot :: "(fiber_index \<times> nat \<times> flag_ptr) option list \<Rightarrow> nat \<Rightarrow> nat option" where
  "find_free_slot [] k = None"
| "find_free_slot (None # slots) k = Some k"
| "find_free_slot (Some w # slots) k = find_free_slot slots (Suc k)"

text \<open>
  Modelled from the spec: "addFiberToWaitingList(fiberIndex, targetValue, storedFlagPtr) ->
  bool: reserves a waiting slot, publishes the tuple, then re-reads the counter. If the
  current value already equals targetValue, the slot is released and true is returned
  (already done, do not park). Otherwise false is returned; the slot remains active."
  "addFiberToWaitingList fails fatally if no waiting slot is available."
\<close>

definition AddFiberToWaitingList ::
  "TaskScheduler \<Rightarrow> counter_ptr \<Rightarrow> fiber_index \<Rightarrow> nat \<Rightarrow> flag_ptr
     \<Rightarrow> error + (bool \<times> TaskScheduler)" where
  "AddFiberToWaitingList s c fiberIndex targetValue fiberStoredFlag =
     (case find_free_slot (m_waitingFibers (counters s c)) 0 of
        None \<Rightarrow> Inl NoWaitingSlot
      | Some k \<Rightarrow>
          (let published = (m_waitingFibers (counters s c))
                 [k := Some (fiberIndex, targetValue, fiberStoredFlag)]
           in if m_value (counters s c) = targetValue
              then Inr (True, s\<lparr>counters := (counters s)
                     (c := (counters s c)\<lparr>m_waitingFibers := published[k := None]\<rparr>)\<rparr>)
              else Inr (False, s\<lparr>counters := (counters s)
                     (c := (counters s c)\<lparr>m_waitingFibers := published\<rparr>)\<rparr>)))"

section \<open>The heap of stored flags\<close>

text \<open>
  \<open>new std::atomic<bool>(b)\<close> allocates at an address greater than every live one (so never
  at address 0, the null pointer); \<open>delete\<close> removes the object; an access through a
  pointer that names no live object is the error \<open>InvalidFlagPointer\<close>.
\<close>

fun max_address :: "(flag_ptr \<times> atomic_bool) list \<Rightarrow> nat" where
  "max_address [] = 0"
| "max_address ((p, a) # h) = max p (max_address h)"

definition new_flag :: "TaskScheduler \<Rightarrow> bool \<Rightarrow> flag_ptr \<times> TaskScheduler" where
  "new_flag s b =
     (Suc (max_address (storedFlags s)),
      s\<lparr>storedFlags := (Suc (max_address (storedFlags s)), atomic_new b) # storedFlags s\<rparr>)"

definition delete_flag :: "TaskScheduler \<Rightarrow> flag_ptr \<Rightarrow> error + TaskScheduler" where
  "delete_flag s p =
     (case map_of (storedFlags s) p of
        None \<Rightarrow> Inl (InvalidFlagPointer p)
      | Some a \<Rightarrow> Inr (s\<lparr>storedFlags := filter (\<lambda>e. fst e \<noteq> p) (storedFlags s)\<rparr>))"

definition store_flag ::
  "TaskScheduler \<Rightarrow> flag_ptr \<Rightarrow> bool \<Rightarrow> memory_order \<Rightarrow> error + TaskScheduler" where
  "store_flag s p b mo =
     (case map_of (storedFlags s) p of
        None \<Rightarrow> Inl (InvalidFlagPointer p)
      | Some a \<Rightarrow> Inr (s\<lparr>storedFlags :=
          map (\<lambda>e. if fst e = p then (p, atomic_store b mo) else e) (storedFlags s)\<rparr>))"

section \<open>Task submission (lines 277-297)\<close>

definition AddTask ::
  "TaskScheduler \<Rightarrow> thread_id \<Rightarrow> Task \<Rightarrow> counter_ptr option \<Rightarrow> error + TaskScheduler" where
  "AddTask s me task counter =
     (let s1 = (case counter of None \<Rightarrow> s | Some c \<Rightarrow> Store s c 1);
          bundle = \<lparr>TaskToExecute = task, TaskBundle.Counter = counter\<rparr>;
          idx = GetCurrentThreadIndex s1 me
      in if idx < length (m_tls s1)
         then Inr (tls_update s1 idx (\<lambda>tls. tls\<lparr>TaskQueue := Push (TaskQueue tls) bundle\<rparr>))
         else Inl (TlsIndexOutOfBounds idx))"

text \<open>The loop of \<open>AddTasks\<close>, from index \<open>i\<close>; \<open>n\<close> is \<open>numTasks - i\<close>.\<close>

fun AddTasks_loop ::
  "TaskScheduler \<Rightarrow> nat \<Rightarrow> Task list \<Rightarrow> counter_ptr option \<Rightarrow> nat \<Rightarrow> nat
     \<Rightarrow> error + TaskScheduler" where
  "AddTasks_loop s idx tasks counter i 0 = Inr s"
| "AddTasks_loop s idx tasks counter i (Suc n) =
     (if i < length tasks
      then AddTasks_loop
             (tls_update s idx (\<lambda>tls. tls\<lparr>TaskQueue := Push (TaskQueue tls)
                \<lparr>TaskToExecute = tasks ! i, TaskBundle.Counter = counter\<rparr>\<rparr>))
             idx tasks counter (Suc i) n
      else Inl (TaskIndexOutOfBounds i))"

definition AddTasks ::
  "TaskScheduler \<Rightarrow> thread_id \<Rightarrow> nat \<Rightarrow> Task list \<Rightarrow> counter_ptr option
     \<Rightarrow> error + TaskScheduler" where
  "AddTasks s me numTasks tasks counter =
     (let s1 = (case counter of None \<Rightarrow> s | Some c \<Rightarrow> Store s c numTasks);
          idx = GetCurrentThreadIndex s1 me
      in if idx < length (m_tls s1)
         then AddTasks_loop s1 idx tasks counter 0 numTasks
         else Inl (TlsIndexOutOfBounds idx))"

section \<open>Deferred fiber release and ready fibers (lines 369-438)\<close>

definition CleanUpOldFiber :: "TaskScheduler \<Rightarrow> thread_id \<Rightarrow> error + TaskScheduler" where
  "CleanUpOldFiber s me =
     (let idx = GetCurrentThreadIndex s me in
      if \<not> idx < length (m_tls s) then Inl (TlsIndexOutOfBounds idx)
      else (case OldFiberDestination (m_tls s ! idx) of
          ToPool \<Rightarrow>
            (if OldFiberIndex (m_tls s ! idx) < length (m_freeFibers s)
             then Inr (tls_update
                    (s\<lparr>m_freeFibers := (m_freeFibers s)
                         [OldFiberIndex (m_tls s ! idx) := atomic_store True memory_order_release]\<rparr>)
                    idx
                    (\<lambda>tls. tls\<lparr>OldFiberDestination := DestNone,
                                OldFiberIndex := FTL_INVALID_INDEX\<rparr>))
             else Inl (FiberIndexOutOfBounds (OldFiberIndex (m_tls s ! idx))))
        | ToWaiting \<Rightarrow>
            (case store_flag s (OldFiberStoredFlag (m_tls s ! idx)) True memory_order_relaxed of
               Inl e \<Rightarrow> Inl e
             | Inr s1 \<Rightarrow> Inr (tls_update s1 idx
                    (\<lambda>tls. tls\<lparr>OldFiberDestination := DestNone,
                                OldFiberIndex := FTL_INVALID_INDEX\<rparr>)))
        | DestNone \<Rightarrow> Inr s))"

definition AddReadyFiber ::
  "TaskScheduler \<Rightarrow> thread_id \<Rightarrow> fiber_index \<Rightarrow> flag_ptr \<Rightarrow> error + TaskScheduler" where
  "AddReadyFiber s me fiberIndex fiberStoredFlag =
     (let idx = GetCurrentThreadIndex s me in
      if idx < length (m_tls s)
      then Inr (tls_update s idx
             (\<lambda>tls. tls\<lparr>ReadyFibers := ReadyFibers tls @ [(fiberIndex, fiberStoredFlag)]\<rparr>))
      else Inl (TlsIndexOutOfBounds idx))"

section \<open>The fiber pool (lines 345-367)\<close>

text \<open>
  One pass of the inner loop over the free flags, from index \<open>i\<close>: the index of the first
  flag that both loads find true, which the compare-exchange then takes. (A spurious
  failure of the weak compare-exchange, and a flag taken by another thread between the
  loads, are not modelled.)
\<close>

fun GetNextFreeFiberIndex_scan :: "atomic_bool list \<Rightarrow> nat \<Rightarrow> nat option" where
  "GetNextFreeFiberIndex_scan [] i = None"
| "GetNextFreeFiberIndex_scan (a # flags) i =
     (if \<not> atomic_load a memory_order_relaxed then GetNextFreeFiberIndex_scan flags (Suc i)
      else if \<not> atomic_load a memory_order_acquire then GetNextFreeFiberIndex_scan flags (Suc i)
      else Some i)"

text \<open>
  The outer loop \<open>for (uint j = 0; ; ++j)\<close> has no exit but the \<open>return\<close> of the inner loop:
  with no free fiber it spins forever, which is the value \<open>None\<close>. (\<open>j\<close> only drives the
  diagnostic \<open>printf\<close>.)
\<close>

partial_function (option) GetNextFreeFiberIndex_spin :: "atomic_bool list \<Rightarrow> nat \<Rightarrow> nat option" where
  "GetNextFreeFiberIndex_spin flags j =
     (case GetNextFreeFiberIndex_scan flags 0 of
        Some i \<Rightarrow> Some i
      | None \<Rightarrow> GetNextFreeFiberIndex_spin flags (Suc j mod 4294967296))"

definition GetNextFreeFiberIndex :: "TaskScheduler \<Rightarrow> (fiber_index \<times> TaskScheduler) option" where
  "GetNextFreeFiberIndex s =
     (case GetNextFreeFiberIndex_spin (m_freeFibers s) 0 of
        None \<Rightarrow> None
      | Some i \<Rightarrow> Some (i, s\<lparr>m_freeFibers := (m_freeFibers s)
                          [i := atomic_store False memory_order_release]\<rparr>))"

text \<open>\<open>m_fibers[from].SwitchToFiber(&m_fibers[to])\<close>: both indices must lie in the pool.\<close>

definition SwitchFibers ::
  "TaskScheduler \<Rightarrow> fiber_index \<Rightarrow> fiber_index \<Rightarrow> error + (TaskScheduler \<times> outcome)" where
  "SwitchFibers s from to =
     (if \<not> from < m_fiberPoolSize s then Inl (FiberIndexOutOfBounds from)
      else if \<not> to < m_fiberPoolSize s then Inl (FiberIndexOutOfBounds to)
      else Inr (s, SwitchToFiber from to))"

section \<open>Waiting for a counter (lines 440-480)\<close>

text \<open>
  Lines 452-476 of \<open>WaitForCounter\<close>: the waiting fiber is recorded and the thread
  switches to the replacement fiber \<open>freeFiberIndex\<close>, or the counter turns out to be done.
  \<open>idx\<close> is the index behind the reference \<open>tls\<close>.
\<close>

definition WaitForCounter_enqueue ::
  "TaskScheduler \<Rightarrow> nat \<Rightarrow> fiber_index \<Rightarrow> fiber_index \<Rightarrow> counter_ptr \<Rightarrow> nat \<Rightarrow> bool
     \<Rightarrow> error + (TaskScheduler \<times> outcome)" where
  "WaitForCounter_enqueue s1 idx currentFiberIndex freeFiberIndex counter target
       pinToCurrentThread =
     (if pinToCurrentThread
      then SwitchFibers
             (tls_update s1 idx (\<lambda>tls. tls\<lparr>PinnedTasks := PinnedTasks tls @
                [\<lparr>FiberIndex = currentFiberIndex,
                  PinnedWaitingFiberBundle.Counter = counter,
                  TargetValue = target\<rparr>]\<rparr>))
             currentFiberIndex freeFiberIndex
      else
        (case new_flag s1 False of (fiberStoredFlag, s2) \<Rightarrow>
          (case AddFiberToWaitingList s2 counter (CurrentFiberIndex (m_tls s2 ! idx))
                  target fiberStoredFlag of
             Inl e \<Rightarrow> Inl e
           | Inr (alreadyDone, s3) \<Rightarrow>
               if alreadyDone
               then (case delete_flag s3 fiberStoredFlag of
                       Inl e \<Rightarrow> Inl e
                     | Inr s4 \<Rightarrow>
                         Inr (s4\<lparr>m_freeFibers := (m_freeFibers s4)
                                [freeFiberIndex := atomic_store True memory_order_release]\<rparr>,
                              Returned))
               else SwitchFibers
                      (tls_update s3 idx (\<lambda>tls. tls\<lparr>OldFiberIndex := currentFiberIndex,
                         CurrentFiberIndex := freeFiberIndex,
                         OldFiberDestination := ToWaiting,
                         OldFiberStoredFlag := fiberStoredFlag\<rparr>))
                      currentFiberIndex freeFiberIndex)))"

text \<open>
  \<open>WaitForCounter\<close> after the fast-out check, up to the fiber switch (lines 446-476).
  The result is \<open>None\<close> when \<open>GetNextFreeFiberIndex\<close> never returns.
\<close>

definition WaitForCounter_park ::
  "TaskScheduler \<Rightarrow> thread_id \<Rightarrow> counter_ptr \<Rightarrow> nat \<Rightarrow> bool
     \<Rightarrow> (error + (TaskScheduler \<times> outcome)) option" where
  "WaitForCounter_park s me counter target pinToCurrentThread =
     (let idx = GetCurrentThreadIndex s me in
      if \<not> idx < length (m_tls s) then Some (Inl (TlsIndexOutOfBounds idx))
      else
        (case GetNextFreeFiberIndex s of
           None \<Rightarrow> None
         | Some (freeFiberIndex, s1) \<Rightarrow>
             Some (WaitForCounter_enqueue s1 idx (CurrentFiberIndex (m_tls s ! idx))
                     freeFiberIndex counter target pinToCurrentThread)))"

text \<open>
  \<open>WaitForCounter\<close> up to its return or its fiber switch. \<open>others\<close> is what the other
  threads do to the scheduler between the fast-out load of the counter (line 442) and
  the rest of the function; the identity when nothing runs in between. The call to
  \<open>CleanUpOldFiber\<close> after the switch (line 479) runs when the parked fiber is resumed,
  on the thread that resumes it.
\<close>

definition WaitForCounter ::
  "(TaskScheduler \<Rightarrow> TaskScheduler) \<Rightarrow> TaskScheduler \<Rightarrow> thread_id \<Rightarrow> counter_ptr \<Rightarrow> nat \<Rightarrow> bool
     \<Rightarrow> (error + (TaskScheduler \<times> outcome)) option" where
  "WaitForCounter others s me counter target pinToCurrentThread =
     (if Load s counter = target then Some (Inr (s, Returned))
      else WaitForCounter_park (others s) me counter target pinToCurrentThread)"

definition WaitForCounter_resumed :: "TaskScheduler \<Rightarrow> thread_id \<Rightarrow> error + TaskScheduler" where
  "WaitForCounter_resumed s me = CleanUpOldFiber s me"

section \<open>Fetching the next task (lines 319-343)\<close>

text \<open>
  The steal loop, from offset \<open>i\<close>. \<open>threadIndex + i\<close> is a \<open>std::size_t\<close> sum (64 bits).
  The result is the bundle stolen (\<open>None\<close> for \<open>return false\<close>) and the state, in which the
  victim has lost the bundle and \<open>LastSuccessfulSteal\<close> of the caller is written.
\<close>

definition threadIndexToStealFrom :: "TaskScheduler \<Rightarrow> nat \<Rightarrow> nat \<Rightarrow> nat" where
  "threadIndexToStealFrom s threadIndex i =
     ((threadIndex + i) mod 18446744073709551616) mod m_numThreads s"

function GetNextTask_steal ::
  "TaskScheduler \<Rightarrow> nat \<Rightarrow> nat \<Rightarrow> nat \<Rightarrow> error + (TaskScheduler \<times> TaskBundle option)" where
  "GetNextTask_steal s currentThreadIndex threadIndex i =
     (if i < m_numThreads s
      then (if threadIndexToStealFrom s threadIndex i = currentThreadIndex
            then GetNextTask_steal s currentThreadIndex threadIndex (Suc i)
            else if \<not> threadIndexToStealFrom s threadIndex i < length (m_tls s)
            then Inl (TlsIndexOutOfBounds (threadIndexToStealFrom s threadIndex i))
            else (case Steal (TaskQueue (m_tls s ! threadIndexToStealFrom s threadIndex i)) of
                    None \<Rightarrow> GetNextTask_steal s currentThreadIndex threadIndex (Suc i)
                  | Some (nextTask, q) \<Rightarrow>
                      Inr (tls_update
                             (tls_update s (threadIndexToStealFrom s threadIndex i)
                                (\<lambda>otherTLS. otherTLS\<lparr>TaskQueue := q\<rparr>))
                             currentThreadIndex
                             (\<lambda>tls. tls\<lparr>LastSuccessfulSteal := i\<rparr>),
                           Some nextTask)))
      else Inr (s, None))"
  by pat_completeness auto
termination
  by (relation "measure (\<lambda>(s, c, t, i). m_numThreads s - i)") auto

declare GetNextTask_steal.simps [simp del]

definition GetNextTask ::
  "TaskScheduler \<Rightarrow> thread_id \<Rightarrow> error + (TaskScheduler \<times> TaskBundle option)" where
  "GetNextTask s me =
     (let currentThreadIndex = GetCurrentThreadIndex s me in
      if \<not> currentThreadIndex < length (m_tls s)
      then Inl (TlsIndexOutOfBounds currentThreadIndex)
      else (case Pop (TaskQueue (m_tls s ! currentThreadIndex)) of
              Some (nextTask, q) \<Rightarrow>
                Inr (tls_update s currentThreadIndex (\<lambda>tls. tls\<lparr>TaskQueue := q\<rparr>),
                     Some nextTask)
            | None \<Rightarrow>
                GetNextTask_steal s currentThreadIndex
                  (LastSuccessfulSteal (m_tls s ! currentThreadIndex)) 0))"

text \<open>
  Offset \<open>k\<close> of a scan that starts at \<open>t\<close> finds something to steal: its victim is not the
  caller and the victim's queue is not empty.
\<close>

definition steal_candidate :: "TaskScheduler \<Rightarrow> nat \<Rightarrow> nat \<Rightarrow> nat \<Rightarrow> bool" where
  "steal_candidate s cur t k =
     (threadIndexToStealFrom s t k \<noteq> cur
      \<and> TaskQueue (m_tls s ! threadIndexToStealFrom s t k) \<noteq> [])"

section \<open>The fiber loop (lines 98-166)\<close>

text \<open>
  The scan of \<open>tls.PinnedTasks\<close> (lines 103-111): the value of \<open>waitingFiberIndex\<close> after
  the loop and the list after the \<open>erase\<close>.
\<close>

fun FiberStart_pinned ::
  "TaskScheduler \<Rightarrow> PinnedWaitingFiberBundle list
     \<Rightarrow> fiber_index \<times> PinnedWaitingFiberBundle list" where
  "FiberStart_pinned s [] = (FTL_INVALID_INDEX, [])"
| "FiberStart_pinned s (bundle # bundles) =
     (if Load s (PinnedWaitingFiberBundle.Counter bundle) = TargetValue bundle
      then (FiberIndex bundle, bundles)
      else (case FiberStart_pinned s bundles of
              (waitingFiberIndex, rest) \<Rightarrow> (waitingFiberIndex, bundle # rest)))"

text \<open>
  The scan of \<open>tls.ReadyFibers\<close> (lines 115-124): the value of \<open>waitingFiberIndex\<close> after
  the loop, the stored flag to \<open>delete\<close> if an entry was taken, and the list after the
  \<open>erase\<close>.
\<close>

fun FiberStart_ready ::
  "(flag_ptr \<times> atomic_bool) list \<Rightarrow> (fiber_index \<times> flag_ptr) list
     \<Rightarrow> error + (fiber_index \<times> flag_ptr option \<times> (fiber_index \<times> flag_ptr) list)" where
  "FiberStart_ready heap [] = Inr (FTL_INVALID_INDEX, None, [])"
| "FiberStart_ready heap (entry # entries) =
     (case map_of heap (snd entry) of
        None \<Rightarrow> Inl (InvalidFlagPointer (snd entry))
      | Some a \<Rightarrow>
          if \<not> atomic_load a memory_order_relaxed
          then (case FiberStart_ready heap entries of
                  Inl e \<Rightarrow> Inl e
                | Inr (waitingFiberIndex, deleted, rest) \<Rightarrow>
                    Inr (waitingFiberIndex, deleted, entry # rest))
          else Inr (fst entry, Some (snd entry), entries))"

text \<open>Lines 127-135: a waiting fiber was found; fill in the TLS and switch to it.\<close>

definition FiberStart_resume ::
  "TaskScheduler \<Rightarrow> nat \<Rightarrow> fiber_index \<Rightarrow> error + (TaskScheduler \<times> outcome)" where
  "FiberStart_resume s idx waitingFiberIndex =
     (let s1 = tls_update s idx (\<lambda>tls. tls\<lparr>OldFiberIndex := CurrentFiberIndex tls,
                 CurrentFiberIndex := waitingFiberIndex,
                 OldFiberDestination := ToPool\<rparr>)
      in SwitchFibers s1 (OldFiberIndex (m_tls s1 ! idx)) (CurrentFiberIndex (m_tls s1 ! idx)))"

text \<open>
  One iteration of the loop of \<open>FiberStart\<close>, up to the fiber switch (line 135), the call of
  the task function (line 160) or the empty-queue behaviour (lines 143-158), which
  changes nothing of the scheduler. The call to \<open>CleanUpOldFiber\<close> after the switch (line
  138) runs when this fiber is next switched to.
\<close>

definition FiberStart_iteration ::
  "TaskScheduler \<Rightarrow> thread_id \<Rightarrow> error + (TaskScheduler \<times> outcome)" where
  "FiberStart_iteration s me =
     (let idx = GetCurrentThreadIndex s me in
      if \<not> idx < length (m_tls s) then Inl (TlsIndexOutOfBounds idx)
      else
        (case FiberStart_pinned s (PinnedTasks (m_tls s ! idx)) of
           (pinnedFiberIndex, pinned) \<Rightarrow>
             (let s1 = tls_update s idx (\<lambda>tls. tls\<lparr>PinnedTasks := pinned\<rparr>) in
              case (if pinnedFiberIndex = FTL_INVALID_INDEX
                    then (case FiberStart_ready (storedFlags s1) (ReadyFibers (m_tls s1 ! idx)) of
                            Inl e \<Rightarrow> Inl e
                          | Inr (readyFiberIndex, deleted, ready) \<Rightarrow>
                              (case deleted of
                                 None \<Rightarrow> Inr (readyFiberIndex, s1)
                               | Some p \<Rightarrow>
                                   (case delete_flag s1 p of
                                      Inl e \<Rightarrow> Inl e
                                    | Inr s2 \<Rightarrow>
                                        Inr (readyFiberIndex,
                                             tls_update s2 idx
                                               (\<lambda>tls. tls\<lparr>ReadyFibers := ready\<rparr>)))))
                    else Inr (pinnedFiberIndex, s1)) of
                Inl e \<Rightarrow> Inl e
              | Inr (waitingFiberIndex, s3) \<Rightarrow>
                  if waitingFiberIndex \<noteq> FTL_INVALID_INDEX
                  then FiberStart_resume s3 idx waitingFiberIndex
                  else (case GetNextTask s3 me of
                          Inl e \<Rightarrow> Inl e
                        | Inr (s4, None) \<Rightarrow> Inr (s4, EmptyQueue)
                        | Inr (s4, Some nextTask) \<Rightarrow> Inr (s4, Execute nextTask)))))"

text \<open>
  The conditions the two scans test: the counter of a pinned bundle holds its target value
  (line 105); the stored flag of a ready entry is a live object that holds \<open>b\<close> (line 116).
\<close>

definition counter_reached :: "TaskScheduler \<Rightarrow> PinnedWaitingFiberBundle \<Rightarrow> bool" where
  "counter_reached s bundle =
     (Load s (PinnedWaitingFiberBundle.Counter bundle) = TargetValue bundle)"

definition stored_flag_is :: "TaskScheduler \<Rightarrow> bool \<Rightarrow> fiber_index \<times> flag_ptr \<Rightarrow> bool" where
  "stored_flag_is s b entry =
     (case map_of (storedFlags s) (snd entry) of None \<Rightarrow> False | Some a \<Rightarrow> held a = b)"

text \<open>Lines 141-164: the else branch of the loop body, up to the call of the task function.\<close>

definition run_next_task :: "TaskScheduler \<Rightarrow> thread_id \<Rightarrow> error + (TaskScheduler \<times> outcome)" where
  "run_next_task s me =
     (case GetNextTask s me of
        Inl e \<Rightarrow> Inl e
      | Inr (s4, None) \<Rightarrow> Inr (s4, EmptyQueue)
      | Inr (s4, Some nextTask) \<Rightarrow> Inr (s4, Execute nextTask))"

text \<open>
  Modelled from the spec: \<open>FetchSub\<close> of \<open>AtomicCounter\<close>. "On every fetchSub, after
  committing the decrement, scan all active slots. For each slot whose targetValue equals
  the new value and whose storedFlag can be observed true, atomically claim the slot and
  enqueue (fiberIndex, storedFlagPtr) into some worker's ReadyFibers. If storedFlag is
  false, leave the slot." "Worker selection for ready-fiber delivery: the implementation
  MAY deliver to the worker that performed the decrement (simplest): this is a policy, not
  a contract." The worker is therefore a parameter: \<open>deliver_to k\<close> is the thread of the
  worker that the fiber of slot \<open>k\<close> is delivered to, and the enqueue is what
  \<open>TaskScheduler::AddReadyFiber\<close> (lines 435-438), the enqueue operation of the scheduler,
  does when that thread runs it. Delivery to the worker that decrements is
  \<open>deliver_to = (\<lambda>k. me)\<close>. The counter is an unsigned 32-bit integer.
\<close>

fun CheckWaitingFibers ::
  "TaskScheduler \<Rightarrow> (nat \<Rightarrow> thread_id) \<Rightarrow> counter_ptr \<Rightarrow> nat \<Rightarrow> nat \<Rightarrow> nat
     \<Rightarrow> error + TaskScheduler" where
  "CheckWaitingFibers s deliver_to c x k 0 = Inr s"
| "CheckWaitingFibers s deliver_to c x k (Suc n) =
     (case m_waitingFibers (counters s c) ! k of
        None \<Rightarrow> CheckWaitingFibers s deliver_to c x (Suc k) n
      | Some (fiberIndex, targetValue, fiberStoredFlag) \<Rightarrow>
          if targetValue \<noteq> x then CheckWaitingFibers s deliver_to c x (Suc k) n
          else (case map_of (storedFlags s) fiberStoredFlag of
                  None \<Rightarrow> Inl (InvalidFlagPointer fiberStoredFlag)
                | Some a \<Rightarrow>
                    if \<not> held a then CheckWaitingFibers s deliver_to c x (Suc k) n
                    else (case AddReadyFiber
                                 (s\<lparr>counters := (counters s)
                                      (c := (counters s c)\<lparr>m_waitingFibers :=
                                         (m_waitingFibers (counters s c))[k := None]\<rparr>)\<rparr>)
                                 (deliver_to k) fiberIndex fiberStoredFlag of
                            Inl e \<Rightarrow> Inl e
                          | Inr s1 \<Rightarrow> CheckWaitingFibers s1 deliver_to c x (Suc k) n)))"

text \<open>\<open>FetchSub(1)\<close> called by thread \<open>me\<close>.\<close>

definition FetchSub ::
  "TaskScheduler \<Rightarrow> thread_id \<Rightarrow> counter_ptr \<Rightarrow> (nat \<Rightarrow> thread_id) \<Rightarrow> error + TaskScheduler" where
  "FetchSub s me c deliver_to =
     (let x = (m_value (counters s c) + 4294967295) mod 4294967296
      in CheckWaitingFibers (Store s c x) deliver_to c x 0
           (length (m_waitingFibers (counters s c))))"

text \<open>Lines 160-163: after the task function has returned.\<close>

definition FiberStart_task_returned ::
  "TaskScheduler \<Rightarrow> thread_id \<Rightarrow> TaskBundle \<Rightarrow> (nat \<Rightarrow> thread_id) \<Rightarrow> error + TaskScheduler" where
  "FiberStart_task_returned s me nextTask deliver_to =
     (case TaskBundle.Counter nextTask of
        None \<Rightarrow> Inr s
      | Some c \<Rightarrow> FetchSub s me c deliver_to)"

section \<open>Sequences of calls and code sections\<close>

text \<open>One \<open>AddTask\<close> call for each task of a list, in order, all with the same counter.\<close>

fun AddTask_each ::
  "TaskScheduler \<Rightarrow> thread_id \<Rightarrow> Task list \<Rightarrow> counter_ptr option \<Rightarrow> error + TaskScheduler" where
  "AddTask_each s me [] counter = Inr s"
| "AddTask_each s me (task # tasks) counter =
     (case AddTask s me task counter of
        Inl e \<Rightarrow> Inl e
      | Inr s1 \<Rightarrow> AddTask_each s1 me tasks counter)"

text \<open>What enqueueing one bundle for each task of a list does to the owner's queue.\<close>

definition enqueue_all :: "Task list \<Rightarrow> counter_ptr option \<Rightarrow> ThreadLocalStorage \<Rightarrow> ThreadLocalStorage" where
  "enqueue_all tasks counter =
     (\<lambda>tls. tls\<lparr>TaskQueue := TaskQueue tls @
           map (\<lambda>task. \<lparr>TaskToExecute = task, TaskBundle.Counter = counter\<rparr>) tasks\<rparr>)"

text \<open>
  The sections of scheduler code that run on a worker between two fiber switches, with
  their arguments. \<open>WaitForCounter\<close> is its reservation of a fiber
  (\<open>In_GetNextFreeFiberIndex\<close>) followed by lines 452-476 (\<open>In_WaitForCounter_enqueue\<close>,
  with the index reserved, an index of the pool).
\<close>

datatype code_section =
  In_AddTask Task "counter_ptr option"
  | In_AddTasks nat "Task list" "counter_ptr option"
  | In_GetNextTask
  | In_GetNextFreeFiberIndex
  | In_CleanUpOldFiber
  | In_AddReadyFiber fiber_index flag_ptr
  | In_WaitForCounter_enqueue counter_ptr nat bool fiber_index
  | In_FiberStart_iteration
  | In_FiberStart_task_returned TaskBundle "nat \<Rightarrow> thread_id"

text \<open>The state a section leaves; \<open>None\<close> when it faults or never returns.\<close>

definition state_of :: "error + TaskScheduler \<Rightarrow> TaskScheduler option" where
  "state_of r = (case r of Inl e \<Rightarrow> None | Inr s \<Rightarrow> Some s)"

definition state_of_pair :: "error + (TaskScheduler \<times> 'a) \<Rightarrow> TaskScheduler option" where
  "state_of_pair r = (case r of Inl e \<Rightarrow> None | Inr (s, x) \<Rightarrow> Some s)"

fun run_section :: "code_section \<Rightarrow> TaskScheduler \<Rightarrow> thread_id \<Rightarrow> TaskScheduler option" where
  "run_section (In_AddTask task counter) s me = state_of (AddTask s me task counter)"
| "run_section (In_AddTasks numTasks tasks counter) s me =
     state_of (AddTasks s me numTasks tasks counter)"
| "run_section In_GetNextTask s me = state_of_pair (GetNextTask s me)"
| "run_section In_GetNextFreeFiberIndex s me = map_option snd (GetNextFreeFiberIndex s)"
| "run_section In_CleanUpOldFiber s me = state_of (CleanUpOldFiber s me)"
| "run_section (In_AddReadyFiber fiberIndex fiberStoredFlag) s me =
     state_of (AddReadyFiber s me fiberIndex fiberStoredFlag)"
| "run_section (In_WaitForCounter_enqueue counter target pinToCurrentThread freeFiberIndex) s me =
     (if GetCurrentThreadIndex s me < length (m_tls s) \<and> freeFiberIndex < m_fiberPoolSize s
      then state_of_pair (WaitForCounter_enqueue s (GetCurrentThreadIndex s me)
             (CurrentFiberIndex (m_tls s ! GetCurrentThreadIndex s me))
             freeFiberIndex counter target pinToCurrentThread)
      else None)"
| "run_section In_FiberStart_iteration s me = state_of_pair (FiberStart_iteration s me)"
| "run_section (In_FiberStart_task_returned nextTask deliver_to) s me =
     state_of (FiberStart_task_returned s me nextTask deliver_to)"

text \<open>Fiber \<open>i\<close> is released between two states: its free flag holds true only in the second.\<close>

definition released :: "TaskScheduler \<Rightarrow> TaskScheduler \<Rightarrow> fiber_index \<Rightarrow> bool" where
  "released s s' i =
     (i < length (m_freeFibers s) \<and> i < length (m_freeFibers s')
      \<and> \<not> held (m_freeFibers s ! i) \<and> held (m_freeFibers s' ! i))"

section \<open>Example states\<close>

text \<open>
  A scheduler with two workers (OS threads 100 and 101) running fibers 0 and 1 of a pool
  of four, and counters that hold 1 and have two waiting slots.
\<close>

definition example_tls :: "fiber_index \<Rightarrow> ThreadLocalStorage" where
  "example_tls f =
     \<lparr>CurrentFiberIndex = f, OldFiberIndex = FTL_INVALID_INDEX,
      OldFiberDestination = DestNone, TaskQueue = [], LastSuccessfulSteal = 1,
      OldFiberStoredFlag = 0, ReadyFibers = [], PinnedTasks = []\<rparr>"

definition example_counter :: AtomicCounter where
  "example_counter = \<lparr>m_value = 1, m_waitingFibers = [None, None]\<rparr>"

definition example_scheduler :: TaskScheduler where
  "example_scheduler =
     \<lparr>m_threads = [100, 101],
      m_freeFibers = [atomic_store False memory_order_release,
                      atomic_store False memory_order_release,
                      atomic_store True memory_order_release,
                      atomic_store True memory_order_release],
      m_tls = [example_tls 0, example_tls 1],
      counters = (\<lambda>c. example_counter),
      storedFlags = []\<rparr>"

definition example_task :: Task where
  "example_task = \<lparr>Function = 7, ArgData = 0\<rparr>"

text \<open>
  Worker 0 after it has waited pinned on counter 0 for the value 0 and switched to fiber 2.
\<close>

definition example_pinned_wait :: TaskScheduler where
  "example_pinned_wait =
     example_scheduler
       \<lparr>m_freeFibers := [atomic_store False memory_order_release,
                         atomic_store False memory_order_release,
                         atomic_store False memory_order_release,
                         atomic_store True memory_order_release],
        m_tls := [(example_tls 0)\<lparr>PinnedTasks :=
                     [\<lparr>FiberIndex = 0, PinnedWaitingFiberBundle.Counter = 0, TargetValue = 0\<rparr>]\<rparr>,
                  example_tls 1]\<rparr>"

text \<open>The same wait, not pinned: worker 0 after it has switched to fiber 2.\<close>

definition example_parked :: TaskScheduler where
  "example_parked =
     example_scheduler
       \<lparr>m_freeFibers := [atomic_store False memory_order_release,
                         atomic_store False memory_order_release,
                         atomic_store False memory_order_release,
                         atomic_store True memory_order_release],
        m_tls := [(example_tls 2)\<lparr>OldFiberIndex := 0, OldFiberDestination := ToWaiting,
                     OldFiberStoredFlag := 1\<rparr>,
                  example_tls 1],
        counters := (\<lambda>c. example_counter)
           (0 := \<lparr>m_value = 1, m_waitingFibers = [Some (0, 0, 1), None]\<rparr>),
        storedFlags := [(1, atomic_new False)]\<rparr>"

text \<open>Four workers with empty queues but the last, which holds one task.\<close>

definition example_four :: TaskScheduler where
  "example_four =
     \<lparr>m_threads = [100, 101, 102, 103],
      m_freeFibers = [atomic_store False memory_order_release,
                      atomic_store False memory_order_release,
                      atomic_store False memory_order_release,
                      atomic_store False memory_order_release,
                      atomic_store True memory_order_release],
      m_tls = [example_tls 0, example_tls 1, example_tls 2,
               (example_tls 3)\<lparr>TaskQueue :=
                  [\<lparr>TaskToExecute = example_task, TaskBundle.Counter = None\<rparr>]\<rparr>],
      counters = (\<lambda>c. example_counter),
      storedFlags = []\<rparr>"


text \<open>
  Worker 0 inside an unpinned \<open>WaitForCounter\<close> on counter 0 for the value 0: it has
  reserved fiber 2, and the counter has reached 0 in the meantime.
\<close>

definition example_reserved :: TaskScheduler where
  "example_reserved =
     (Store example_scheduler 0 0)
       \<lparr>m_freeFibers := [atomic_store False memory_order_release,
                         atomic_store False memory_order_release,
                         atomic_store False memory_order_release,
                         atomic_store True memory_order_release]\<rparr>"

text \<open>
  Worker 0 after the fiber loop on fiber 2 has resumed fiber 0: fiber 2 is the old fiber,
  to be put back into the pool.
\<close>

definition example_resumed :: TaskScheduler where
  "example_resumed =
     example_scheduler
       \<lparr>m_freeFibers := [atomic_store False memory_order_release,
                         atomic_store False memory_order_release,
                         atomic_store False memory_order_release,
                         atomic_store True memory_order_release],
        m_tls := [(example_tls 0)\<lparr>OldFiberIndex := 2, OldFiberDestination := ToPool\<rparr>,
                  example_tls 1]\<rparr>"

text \<open>
  Worker 0 runs the fiber loop on fiber 2 of a pool of seven. Fibers 3 and 0 wait pinned
  on counter 0 (which holds 1) for the values 0 and 1; fibers 4 and 5 are in its ready
  list, with the stored flags at addresses 1 (false) and 2 (true); its queue holds one
  task.
\<close>

definition example_loop :: TaskScheduler where
  "example_loop =
     \<lparr>m_threads = [100, 101],
      m_freeFibers = [atomic_store False memory_order_release,
                      atomic_store False memory_order_release,
                      atomic_store False memory_order_release,
                      atomic_store False memory_order_release,
                      atomic_store False memory_order_release,
                      atomic_store False memory_order_release,
                      atomic_store True memory_order_release],
      m_tls = [(example_tls 2)\<lparr>
                  TaskQueue := [\<lparr>TaskToExecute = example_task, TaskBundle.Counter = None\<rparr>],
                  ReadyFibers := [(4, 1), (5, 2)],
                  PinnedTasks :=
                    [\<lparr>FiberIndex = 3, PinnedWaitingFiberBundle.Counter = 0, TargetValue = 0\<rparr>,
                     \<lparr>FiberIndex = 0, PinnedWaitingFiberBundle.Counter = 0, TargetValue = 1\<rparr>]\<rparr>,
               example_tls 1],
      counters = (\<lambda>c. example_counter),
      storedFlags = [(1, atomic_new False), (2, atomic_store True memory_order_relaxed)]\<rparr>"

section \<open>Auxiliary lemmas\<close>

lemmas example_simps =
  example_scheduler_def example_counter_def example_tls_def example_task_def
  GetCurrentThreadIndex_def atomic_load_def atomic_store_def atomic_new_def
  Load_def Store_def tls_update_def m_fiberPoolSize_def m_numThreads_def

lemma GetCurrentThreadIndex_loop_absent:
  "me \<notin> set ts \<Longrightarrow> GetCurrentThreadIndex_loop ts me i = FTL_INVALID_INDEX"
  by (induction ts arbitrary: i) auto

lemma GetCurrentThreadIndex_loop_present:
  "me \<in> set ts \<Longrightarrow> GetCurrentThreadIndex_loop ts me i < i + length ts"
proof (induction ts arbitrary: i)
  case Nil
  then show ?case by simp
next
  case (Cons t ts)
  show ?case
  proof (cases "t = me")
    case True
    then show ?thesis by simp
  next
    case False
    with Cons.prems have "me \<in> set ts" by simp
    from Cons.IH [OF this, of "Suc i"] False show ?thesis by simp
  qed
qed

lemma GetCurrentThreadIndex_tls_update [simp]:
  "GetCurrentThreadIndex (tls_update s idx f) me = GetCurrentThreadIndex s me"
  by (simp add: GetCurrentThreadIndex_def tls_update_def)

lemma GetCurrentThreadIndex_Store [simp]:
  "GetCurrentThreadIndex (Store s c x) me = GetCurrentThreadIndex s me"
  by (simp add: GetCurrentThreadIndex_def Store_def)

lemma scan_Some:
  "GetNextFreeFiberIndex_scan flags n = Some i \<Longrightarrow>
     \<exists>k. i = n + k \<and> k < length flags \<and> held (flags ! k)"
proof (induction flags arbitrary: n)
  case Nil
  then show ?case by simp
next
  case (Cons a flags)
  show ?case
  proof (cases "held a")
    case True
    with Cons.prems have "i = n" by (simp add: atomic_load_def)
    with True show ?thesis by (intro exI [of _ 0]) simp
  next
    case False
    with Cons.prems have "GetNextFreeFiberIndex_scan flags (Suc n) = Some i"
      by (simp add: atomic_load_def)
    from Cons.IH [OF this] obtain k where "i = Suc n + k" "k < length flags" "held (flags ! k)"
      by blast
    then show ?thesis by (intro exI [of _ "Suc k"]) simp
  qed
qed

lemma scan_Some_0:
  "GetNextFreeFiberIndex_scan flags 0 = Some i \<Longrightarrow> i < length flags \<and> held (flags ! i)"
  using scan_Some [of flags 0 i] by auto

lemma spin_Some:
  "GetNextFreeFiberIndex_scan flags 0 = Some i \<Longrightarrow> GetNextFreeFiberIndex_spin flags j = Some i"
  by (subst GetNextFreeFiberIndex_spin.simps) simp

lemma spin_None:
  assumes "GetNextFreeFiberIndex_scan flags 0 = None"
  shows "GetNextFreeFiberIndex_spin flags j = None"
proof (rule ccontr)
  assume "GetNextFreeFiberIndex_spin flags j \<noteq> None"
  then obtain y where y: "GetNextFreeFiberIndex_spin flags j = Some y" by auto
  have "GetNextFreeFiberIndex_scan flags 0 = Some y"
    using y
    by (induction rule: GetNextFreeFiberIndex_spin.raw_induct [rotated 1, consumes 1])
       (auto split: option.splits)
  with assms show False by simp
qed

lemma find_free_slot_Some:
  "find_free_slot slots n = Some k \<Longrightarrow> \<exists>j. k = n + j \<and> j < length slots \<and> slots ! j = None"
proof (induction slots n rule: find_free_slot.induct)
  case (1 k')
  then show ?case by simp
next
  case (2 slots k')
  then show ?case by (intro exI [of _ 0]) simp
next
  case (3 w slots k')
  then obtain j where "k = Suc k' + j" "j < length slots" "slots ! j = None" by auto
  then show ?case by (intro exI [of _ "Suc j"]) simp
qed

lemma find_free_slot_Some_0:
  "find_free_slot slots 0 = Some k \<Longrightarrow> k < length slots \<and> slots ! k = None"
  using find_free_slot_Some [of slots 0 k] by auto

lemma max_address_ge: "e \<in> set h \<Longrightarrow> fst e \<le> max_address h"
  by (induction h rule: max_address.induct) auto

lemma filter_fresh: "filter (\<lambda>e. fst e \<noteq> Suc (max_address h)) h = h"
proof -
  have "\<forall>e\<in>set h. fst e \<noteq> Suc (max_address h)"
    using max_address_ge by fastforce
  then show ?thesis by simp
qed

lemma GetNextFreeFiberIndex_Some:
  "GetNextFreeFiberIndex_scan (m_freeFibers s) 0 = Some i \<Longrightarrow>
   GetNextFreeFiberIndex s =
     Some (i, s\<lparr>m_freeFibers := (m_freeFibers s)[i := atomic_store False memory_order_release]\<rparr>)"
  by (simp add: GetNextFreeFiberIndex_def spin_Some)

lemma GetNextFreeFiberIndex_None:
  "GetNextFreeFiberIndex_scan (m_freeFibers s) 0 = None \<Longrightarrow> GetNextFreeFiberIndex s = None"
  by (simp add: GetNextFreeFiberIndex_def spin_None)

lemma AddFiberToWaitingList_done:
  assumes "find_free_slot (m_waitingFibers (counters s c)) 0 = Some k"
    and "m_value (counters s c) = target"
  shows "AddFiberToWaitingList s c f target p = Inr (True, s)"
proof -
  from find_free_slot_Some_0 [OF assms(1)]
  have "(m_waitingFibers (counters s c))[k := None] = m_waitingFibers (counters s c)"
    by (metis list_update_id)
  then show ?thesis using assms by (simp add: AddFiberToWaitingList_def)
qed

lemma enqueue_already_done:
  assumes "find_free_slot (m_waitingFibers (counters s1 counter)) 0 = Some k"
    and "Load s1 counter = target"
  shows "WaitForCounter_enqueue s1 idx cur free counter target False =
     Inr (s1\<lparr>m_freeFibers := (m_freeFibers s1)[free := atomic_store True memory_order_release]\<rparr>,
          Returned)"
proof -
  define s2 where "s2 = snd (new_flag s1 False)"
  define p where "p = fst (new_flag s1 False)"
  have nf: "new_flag s1 False = (p, s2)" by (simp add: s2_def p_def)
  have c2: "counters s2 = counters s1" by (simp add: s2_def new_flag_def)
  have "AddFiberToWaitingList s2 counter (CurrentFiberIndex (m_tls s2 ! idx)) target p = Inr (True, s2)"
    using assms by (intro AddFiberToWaitingList_done [of _ _ k]) (simp_all add: c2 Load_def)
  moreover have "delete_flag s2 p = Inr s1"
    by (simp add: delete_flag_def s2_def p_def new_flag_def filter_fresh)
  ultimately show ?thesis by (simp add: WaitForCounter_enqueue_def nf)
qed

section \<open>The fast path of WaitForCounter\<close>

text \<open>
  Claim C5. A call of \<open>WaitForCounter\<close> whose load of the counter already finds the target
  value returns at once: there is no fiber switch and the scheduler state is the one
  before the call, so no free fiber is reserved and the thread-local storage is unchanged.
  This holds for either value of \<open>pinToCurrentThread\<close>, whatever other threads do, and from
  any calling thread.
\<close>

theorem WaitForCounter_fast_out:
  assumes "Load s counter = target"
  shows "WaitForCounter others s me counter target pinToCurrentThread = Some (Inr (s, Returned))"
  using assms by (simp add: WaitForCounter_def)

theorem WaitForCounter_fast_out_witness:
  "Load example_scheduler 0 = 1 \<and>
   WaitForCounter id example_scheduler 100 0 1 False = Some (Inr (example_scheduler, Returned))"
  using WaitForCounter_fast_out [of example_scheduler 0 1 id 100 False]
  by (simp add: Load_def example_scheduler_def example_counter_def)

section \<open>The counter reaches its target while the waiter enqueues\<close>

text \<open>
  Claim C4. An unpinned \<open>WaitForCounter\<close> called by a worker whose fast-out check misses,
  after which the counter reaches the target value (through \<open>others\<close>) before
  \<open>AddFiberToWaitingList\<close> re-reads it, returns without a fiber switch. The state it leaves
  is the state the other threads left, with the free flag of the replacement fiber \<open>i\<close>
  it had reserved stored back to true: every free flag holds what it held, the stored
  flag it allocated is deleted again, no waiting slot of the counter is in use that was not
  before, and the thread-local storage is unchanged. (A fiber of the pool is free and the
  counter has a free waiting slot; otherwise the call spins or fails fatally.)
\<close>

theorem WaitForCounter_already_done:
  assumes worker: "GetCurrentThreadIndex (others s) me < length (m_tls (others s))"
    and miss: "Load s counter \<noteq> target"
    and landed: "Load (others s) counter = target"
    and free: "GetNextFreeFiberIndex_scan (m_freeFibers (others s)) 0 = Some i"
    and slot: "find_free_slot (m_waitingFibers (counters (others s) counter)) 0 = Some k"
  shows "WaitForCounter others s me counter target False =
           Some (Inr ((others s)\<lparr>m_freeFibers := (m_freeFibers (others s))
                        [i := atomic_store True memory_order_release]\<rparr>, Returned))
         \<and> map held ((m_freeFibers (others s))[i := atomic_store True memory_order_release])
             = map held (m_freeFibers (others s))"
proof -
  let ?s = "others s"
  let ?s1 = "?s\<lparr>m_freeFibers := (m_freeFibers ?s)[i := atomic_store False memory_order_release]\<rparr>"
  have "WaitForCounter_enqueue ?s1 (GetCurrentThreadIndex ?s me)
          (CurrentFiberIndex (m_tls ?s ! GetCurrentThreadIndex ?s me)) i counter target False
        = Inr (?s1\<lparr>m_freeFibers := (m_freeFibers ?s1)[i := atomic_store True memory_order_release]\<rparr>,
               Returned)"
    using slot landed by (intro enqueue_already_done [of _ _ k]) (simp_all add: Load_def)
  then have "WaitForCounter_park ?s me counter target False =
      Some (Inr (?s\<lparr>m_freeFibers := (m_freeFibers ?s)[i := atomic_store True memory_order_release]\<rparr>,
                 Returned))"
    using worker GetNextFreeFiberIndex_Some [OF free]
    by (simp add: WaitForCounter_park_def)
  moreover have "map held ((m_freeFibers ?s)[i := atomic_store True memory_order_release])
      = map held (m_freeFibers ?s)"
    using scan_Some_0 [OF free]
    by (simp add: map_update atomic_store_def list_update_same_conv)
  ultimately show ?thesis using miss by (simp add: WaitForCounter_def)
qed

theorem WaitForCounter_already_done_witness:
  "Load example_scheduler 0 \<noteq> 0 \<and> Load (Store example_scheduler 0 0) 0 = 0 \<and>
   WaitForCounter (\<lambda>s. Store s 0 0) example_scheduler 100 0 0 False =
     Some (Inr (Store example_scheduler 0 0, Returned))"
proof -
  have flags: "(m_freeFibers (Store example_scheduler 0 0))[2 := atomic_store True memory_order_release]
      = m_freeFibers (Store example_scheduler 0 0)"
    by (simp add: Store_def example_scheduler_def)
  have "(Store example_scheduler 0 0)\<lparr>m_freeFibers := m_freeFibers (Store example_scheduler 0 0)\<rparr>
      = Store example_scheduler 0 0"
    by simp
  with flags WaitForCounter_already_done
     [of "\<lambda>s. Store s 0 0" example_scheduler 100 0 0 2 0]
  show ?thesis
    by (simp add: Load_def Store_def example_scheduler_def example_counter_def
        GetCurrentThreadIndex_def atomic_load_def atomic_store_def example_tls_def)
qed

section \<open>CurrentFiberIndex across a fiber switch\<close>

text \<open>
  The resume step of the fiber loop and the unpinned path of \<open>WaitForCounter\<close> leave
  \<open>CurrentFiberIndex\<close> naming the fiber switched to; the pinned path leaves it as it was.
\<close>

lemma AddFiberToWaitingList_frame:
  "AddFiberToWaitingList s c f t p = Inr (b, s') \<Longrightarrow>
     m_tls s' = m_tls s \<and> m_freeFibers s' = m_freeFibers s
     \<and> storedFlags s' = storedFlags s \<and> m_threads s' = m_threads s"
  by (auto simp: AddFiberToWaitingList_def Let_def split: option.splits if_splits)

lemma FiberStart_resume_switch:
  assumes "idx < length (m_tls s)"
    and "FiberStart_resume s idx w = Inr (s', SwitchToFiber a b)"
  shows "b = w \<and> a = CurrentFiberIndex (m_tls s ! idx) \<and> CurrentFiberIndex (m_tls s' ! idx) = b"
  using assms
  by (auto simp: FiberStart_resume_def SwitchFibers_def tls_update_def Let_def split: if_splits)

lemma WaitForCounter_enqueue_unpinned_switch:
  assumes "idx < length (m_tls s)"
    and "WaitForCounter_enqueue s idx cur free c t False = Inr (s', SwitchToFiber a b)"
  shows "b = free \<and> a = cur \<and> CurrentFiberIndex (m_tls s' ! idx) = b"
proof -
  obtain p s2 where nf: "new_flag s False = (p, s2)" by (cases "new_flag s False")
  then have s2: "m_tls s2 = m_tls s" by (auto simp: new_flag_def)
  from assms(2) nf obtain s3 where
    add: "AddFiberToWaitingList s2 c (CurrentFiberIndex (m_tls s2 ! idx)) t p = Inr (False, s3)"
    and sw: "SwitchFibers (tls_update s3 idx (\<lambda>tls. tls\<lparr>OldFiberIndex := cur,
               CurrentFiberIndex := free, OldFiberDestination := ToWaiting,
               OldFiberStoredFlag := p\<rparr>)) cur free = Inr (s', SwitchToFiber a b)"
    by (auto simp: WaitForCounter_enqueue_def split: sum.splits if_splits)
  from AddFiberToWaitingList_frame [OF add] s2 have "m_tls s3 = m_tls s" by simp
  with sw assms(1) show ?thesis
    by (auto simp: SwitchFibers_def tls_update_def split: if_splits)
qed

lemma WaitForCounter_enqueue_pinned_switch:
  assumes "idx < length (m_tls s)"
    and "WaitForCounter_enqueue s idx cur free c t True = Inr (s', SwitchToFiber a b)"
  shows "b = free \<and> a = cur
     \<and> CurrentFiberIndex (m_tls s' ! idx) = CurrentFiberIndex (m_tls s ! idx)"
  using assms
  by (auto simp: WaitForCounter_enqueue_def SwitchFibers_def tls_update_def split: if_splits)

text \<open>
  Claim C1: \<open>CurrentFiberIndex\<close> names the fiber executing on the thread, and every
  operation that switches fibers, the pinned path of \<open>WaitForCounter\<close> included, updates
  it to the fiber switched to. The code at the pinned path: worker 0 (thread 100) runs
  fiber 0 and waits pinned on counter 0, which holds 1, for the value 0. The call reserves
  fiber 2 and switches from fiber 0 to fiber 2, and \<open>CurrentFiberIndex\<close> of the worker
  still names fiber 0.
\<close>

theorem pinned_wait_keeps_CurrentFiberIndex:
  "WaitForCounter id example_scheduler 100 0 0 True =
     Some (Inr (example_pinned_wait, SwitchToFiber 0 2))
   \<and> GetCurrentThreadIndex example_pinned_wait 100 = 0
   \<and> CurrentFiberIndex (m_tls example_pinned_wait ! 0) = 0"
  by (simp add: WaitForCounter_def WaitForCounter_park_def GetNextFreeFiberIndex_Some
      WaitForCounter_enqueue_def SwitchFibers_def example_pinned_wait_def example_simps)

text \<open>
  What follows from there: once the counter holds 0, the fiber loop running on fiber 2
  resumes the pinned fiber by a switch out of \<open>m_fibers[0]\<close> into \<open>m_fibers[0]\<close>, and
  records fiber 0, the fiber it resumes, as the old fiber to put back into the pool.
\<close>

lemma pinned_wait_then_resume:
  "FiberStart_iteration (Store example_pinned_wait 0 0) 100 =
     Inr (tls_update (Store example_pinned_wait 0 0) 0
            (\<lambda>tls. tls\<lparr>PinnedTasks := [], OldFiberIndex := 0, OldFiberDestination := ToPool\<rparr>),
          SwitchToFiber 0 0)"
  by (simp add: FiberStart_iteration_def FiberStart_resume_def SwitchFibers_def
      FTL_INVALID_INDEX_def example_pinned_wait_def example_simps)

section \<open>The memory order of the stored flag\<close>

text \<open>
  Claim C9: the store of true into the stored flag of a parked fiber, in the
  \<open>ToWaiting\<close> branch of \<open>CleanUpOldFiber\<close>, uses release ordering. The code: worker 0
  parks fiber 0 unpinned on counter 0 and switches to fiber 2, whose \<open>CleanUpOldFiber\<close>
  publishes the stored flag at address 1 by a store of true with
  \<open>memory_order_relaxed\<close>. The \<open>ToPool\<close> branch, run by worker 0 after it has resumed a
  fiber from fiber 2, stores true into the free flag of fiber 2 with
  \<open>memory_order_release\<close>. (The scan of the ready fibers loads the stored flag with
  \<open>memory_order_relaxed\<close> as well.)
\<close>

theorem stored_flag_published_relaxed:
  "WaitForCounter id example_scheduler 100 0 0 False =
     Some (Inr (example_parked, SwitchToFiber 0 2))
   \<and> (case CleanUpOldFiber example_parked 100 of
         Inl e \<Rightarrow> False
       | Inr s \<Rightarrow> storedFlags s = [(1, \<lparr>held = True, stored_with = Some memory_order_relaxed\<rparr>)])
   \<and> (case CleanUpOldFiber example_resumed 100 of
         Inl e \<Rightarrow> False
       | Inr s \<Rightarrow> m_freeFibers s ! 2 = \<lparr>held = True, stored_with = Some memory_order_release\<rparr>)"
  by (simp add: WaitForCounter_def WaitForCounter_park_def GetNextFreeFiberIndex_Some
      WaitForCounter_enqueue_def SwitchFibers_def new_flag_def AddFiberToWaitingList_def
      CleanUpOldFiber_def store_flag_def
      example_parked_def example_resumed_def example_simps)

section \<open>Stealing\<close>

text \<open>
  \<open>GetNextTask\<close> pops the caller's own queue first. Otherwise it probes the victims
  \<open>(LastSuccessfulSteal + k) mod m_numThreads\<close> for \<open>k = 0, 1, ...\<close>, skipping the caller,
  steals from the first whose queue is not empty and stores the offset \<open>k\<close>. It returns
  false exactly when every queue is empty.
\<close>

lemma GetNextTask_own_queue_first:
  assumes "GetCurrentThreadIndex s me < length (m_tls s)"
    and "TaskQueue (m_tls s ! GetCurrentThreadIndex s me) \<noteq> []"
  shows "GetNextTask s me =
     Inr (tls_update s (GetCurrentThreadIndex s me)
            (\<lambda>tls. tls\<lparr>TaskQueue := butlast (TaskQueue tls)\<rparr>),
          Some (last (TaskQueue (m_tls s ! GetCurrentThreadIndex s me))))"
  using assms by (simp add: GetNextTask_def Let_def Pop_def tls_update_def)

lemma threadIndexToStealFrom_less:
  "k < m_numThreads s \<Longrightarrow> threadIndexToStealFrom s t k < m_numThreads s"
  by (simp add: threadIndexToStealFrom_def)

lemma GetNextTask_steal_scan:
  "length (m_tls s) = m_numThreads s \<Longrightarrow>
   GetNextTask_steal s cur t i =
     (case List.find (steal_candidate s cur t) [i..<m_numThreads s] of
        None \<Rightarrow> Inr (s, None)
      | Some k \<Rightarrow>
          Inr (tls_update
                 (tls_update s (threadIndexToStealFrom s t k)
                    (\<lambda>otherTLS. otherTLS\<lparr>TaskQueue :=
                        tl (TaskQueue (m_tls s ! threadIndexToStealFrom s t k))\<rparr>))
                 cur (\<lambda>tls. tls\<lparr>LastSuccessfulSteal := k\<rparr>),
               Some (hd (TaskQueue (m_tls s ! threadIndexToStealFrom s t k)))))"
proof (induction s cur t i rule: GetNextTask_steal.induct)
  case (1 s cur t i)
  show ?case
  proof (cases "i < m_numThreads s")
    case False
    then show ?thesis by (subst GetNextTask_steal.simps) simp
  next
    case True
    then have upt: "[i..<m_numThreads s] = i # [Suc i..<m_numThreads s]"
      by (simp add: upt_conv_Cons)
    have inb: "threadIndexToStealFrom s t i < length (m_tls s)"
      using True "1.prems" by (simp add: threadIndexToStealFrom_less)
    show ?thesis
    proof (cases "steal_candidate s cur t i")
      case True
      then obtain b q where "TaskQueue (m_tls s ! threadIndexToStealFrom s t i) = b # q"
        by (auto simp: steal_candidate_def neq_Nil_conv)
      with True \<open>i < m_numThreads s\<close> inb show ?thesis
        by (subst GetNextTask_steal.simps) (simp add: upt steal_candidate_def Steal_def)
    next
      case False
      then have "GetNextTask_steal s cur t i = GetNextTask_steal s cur t (Suc i)"
        using \<open>i < m_numThreads s\<close> inb
        by (subst GetNextTask_steal.simps) (auto simp: steal_candidate_def Steal_def)
      also have "\<dots> = (case List.find (steal_candidate s cur t) [Suc i..<m_numThreads s] of
          None \<Rightarrow> Inr (s, None)
        | Some k \<Rightarrow>
            Inr (tls_update
                   (tls_update s (threadIndexToStealFrom s t k)
                      (\<lambda>otherTLS. otherTLS\<lparr>TaskQueue :=
                          tl (TaskQueue (m_tls s ! threadIndexToStealFrom s t k))\<rparr>))
                   cur (\<lambda>tls. tls\<lparr>LastSuccessfulSteal := k\<rparr>),
                 Some (hd (TaskQueue (m_tls s ! threadIndexToStealFrom s t k)))))"
      proof (cases "threadIndexToStealFrom s t i = cur")
        case True
        with \<open>i < m_numThreads s\<close> "1.prems" show ?thesis by (intro "1.IH"(1)) simp_all
      next
        case neq: False
        with False have "Steal (TaskQueue (m_tls s ! threadIndexToStealFrom s t i)) = None"
          by (simp add: steal_candidate_def Steal_def)
        with neq \<open>i < m_numThreads s\<close> inb "1.prems" show ?thesis
          by (intro "1.IH"(2)) simp_all
      qed
      finally show ?thesis using False by (simp add: upt)
    qed
  qed
qed

lemma scan_reaches_every_thread:
  fixes j n t :: nat
  assumes j: "j < n" and room: "t + n \<le> 18446744073709551616"
  shows "\<exists>k<n. ((t + k) mod 18446744073709551616) mod n = j"
proof -
  let ?k = "(j + (n - t mod n)) mod n"
  from j have n: "0 < n" by simp
  then have k: "?k < n" by simp
  have "t + ?k < t + n" using k by simp
  from this room have "t + ?k < 18446744073709551616" by (rule less_le_trans)
  then have "((t + ?k) mod 18446744073709551616) mod n = (t + ?k) mod n" by simp
  also have "\<dots> = (t mod n + (j + (n - t mod n)) mod n) mod n"
    by (rule mod_add_left_eq [symmetric])
  also have "\<dots> = (t mod n + (j + (n - t mod n))) mod n"
    by (rule mod_add_right_eq)
  also have "t mod n + (j + (n - t mod n)) = j + n"
  proof -
    have "t mod n < n" using n by simp
    then show ?thesis by arith
  qed
  also have "(j + n) mod n = j" using j by simp
  finally show ?thesis using k by blast
qed
lemma GetNextTask_fails_iff:
  assumes worker: "GetCurrentThreadIndex s me < length (m_tls s)"
    and wf: "length (m_tls s) = m_numThreads s"
    and room: "LastSuccessfulSteal (m_tls s ! GetCurrentThreadIndex s me) + m_numThreads s
        \<le> 18446744073709551616"
  shows "(\<exists>s'. GetNextTask s me = Inr (s', None))
     = (\<forall>j < m_numThreads s. TaskQueue (m_tls s ! j) = [])"
proof -
  let ?cur = "GetCurrentThreadIndex s me"
  let ?t = "LastSuccessfulSteal (m_tls s ! ?cur)"
  let ?n = "m_numThreads s"
  have none: "(List.find (steal_candidate s ?cur ?t) [0..<?n] = None)
      = (\<forall>j < ?n. j \<noteq> ?cur \<longrightarrow> TaskQueue (m_tls s ! j) = [])"
  proof
    assume nf: "List.find (steal_candidate s ?cur ?t) [0..<?n] = None"
    show "\<forall>j < ?n. j \<noteq> ?cur \<longrightarrow> TaskQueue (m_tls s ! j) = []"
    proof (intro allI impI)
      fix j assume j: "j < ?n" "j \<noteq> ?cur"
      from scan_reaches_every_thread [OF j(1) room] obtain k where
        k: "k < ?n" "threadIndexToStealFrom s ?t k = j"
        by (auto simp: threadIndexToStealFrom_def)
      from nf k(1) have "\<not> steal_candidate s ?cur ?t k" by (auto simp: find_None_iff)
      with k j show "TaskQueue (m_tls s ! j) = []" by (simp add: steal_candidate_def)
    qed
  next
    assume all: "\<forall>j < ?n. j \<noteq> ?cur \<longrightarrow> TaskQueue (m_tls s ! j) = []"
    have "\<not> steal_candidate s ?cur ?t k" if "k < ?n" for k
      using all threadIndexToStealFrom_less [OF that, of ?t]
      by (auto simp: steal_candidate_def)
    then show "List.find (steal_candidate s ?cur ?t) [0..<?n] = None"
      by (auto simp: find_None_iff)
  qed
  show ?thesis
  proof (cases "TaskQueue (m_tls s ! ?cur) = []")
    case False
    with GetNextTask_own_queue_first [OF worker False] worker wf show ?thesis by auto
  next
    case True
    then have "GetNextTask s me = GetNextTask_steal s ?cur ?t 0"
      using worker by (simp add: GetNextTask_def Let_def Pop_def)
    then have "(\<exists>s'. GetNextTask s me = Inr (s', None))
        = (List.find (steal_candidate s ?cur ?t) [0..<?n] = None)"
      using GetNextTask_steal_scan [OF wf, of ?cur ?t 0] by (auto split: option.splits)
    with none True worker wf show ?thesis by auto
  qed
qed

text \<open>
  Claim C7: after a successful steal \<open>LastSuccessfulSteal\<close> is updated so that the next
  scan starts at the victim that yielded the task. The code: worker 0 of four, with
  \<open>LastSuccessfulSteal = 1\<close> and an empty queue, finds workers 1 and 2 empty and steals
  from worker 3 at offset 2 of its scan. It stores the offset, 2, and its next scan starts
  at worker 2, not at the victim, worker 3.
\<close>

theorem steal_records_offset_not_victim:
  "(case GetNextTask example_four 100 of
      Inl e \<Rightarrow> False
    | Inr (s, nextTask) \<Rightarrow>
        nextTask = Some \<lparr>TaskToExecute = example_task, TaskBundle.Counter = None\<rparr>
        \<and> TaskQueue (m_tls example_four ! 3) \<noteq> [] \<and> TaskQueue (m_tls s ! 3) = []
        \<and> LastSuccessfulSteal (m_tls s ! 0) = 2
        \<and> threadIndexToStealFrom s (LastSuccessfulSteal (m_tls s ! 0)) 0 = 2)"
  by (simp add: GetNextTask_def GetNextTask_steal.simps threadIndexToStealFrom_def
      Pop_def Steal_def example_four_def example_simps)

section \<open>AddTask from a thread that is not a worker\<close>

text \<open>
  Claim C8 as stated says that \<open>AddTask\<close> from a thread that is not a registered worker
  changes nothing and stays within the bounds of the TLS array. It does not: called by
  thread 999, which is none of the workers, \<open>AddTask\<close> indexes \<open>m_tls\<close> with
  \<open>FTL_INVALID_INDEX\<close>, outside the array.
\<close>

theorem AddTask_outside_worker_faults:
  "999 \<notin> set (m_threads example_scheduler)
   \<and> AddTask example_scheduler 999 example_task (Some 0)
       = Inl (TlsIndexOutOfBounds FTL_INVALID_INDEX)
   \<and> AddTask example_scheduler 999 example_task (Some 0) \<noteq> Inr example_scheduler"
  by (simp add: AddTask_def FTL_INVALID_INDEX_def example_simps)

text \<open>
  Claim C8, amended. In a scheduler whose TLS array has \<open>m_numThreads\<close> entries (no more
  than the sentinel): for a thread that is not a registered worker \<open>GetCurrentThreadIndex\<close>
  returns the sentinel invalid index, which is not below \<open>m_numThreads\<close>, and \<open>AddTask\<close>
  indexes the TLS array with it, out of bounds (undefined behaviour; the code has no guard).
  For a registered worker the index is below \<open>m_numThreads\<close>, the TLS access of \<open>AddTask\<close>
  is within bounds, the counter (if any) is set to 1 and the bundle is pushed on that
  worker's queue.
\<close>

theorem AddTask_thread_index:
  assumes "m_numThreads s \<le> FTL_INVALID_INDEX" and "length (m_tls s) = m_numThreads s"
  shows "(me \<notin> set (m_threads s) \<longrightarrow>
            GetCurrentThreadIndex s me = FTL_INVALID_INDEX
            \<and> \<not> GetCurrentThreadIndex s me < m_numThreads s
            \<and> AddTask s me task counter = Inl (TlsIndexOutOfBounds FTL_INVALID_INDEX))
       \<and> (me \<in> set (m_threads s) \<longrightarrow>
            GetCurrentThreadIndex s me < m_numThreads s
            \<and> AddTask s me task counter =
                Inr (tls_update (case counter of None \<Rightarrow> s | Some c \<Rightarrow> Store s c 1)
                       (GetCurrentThreadIndex s me)
                       (\<lambda>tls. tls\<lparr>TaskQueue := TaskQueue tls @
                          [\<lparr>TaskToExecute = task, TaskBundle.Counter = counter\<rparr>]\<rparr>)))"
proof (intro conjI impI)
  assume out: "me \<notin> set (m_threads s)"
  then show inv: "GetCurrentThreadIndex s me = FTL_INVALID_INDEX"
    by (simp add: GetCurrentThreadIndex_def GetCurrentThreadIndex_loop_absent)
  with assms show "\<not> GetCurrentThreadIndex s me < m_numThreads s" by simp
  have "GetCurrentThreadIndex (case counter of None \<Rightarrow> s | Some c \<Rightarrow> Store s c 1) me
      = FTL_INVALID_INDEX"
    using inv by (cases counter) simp_all
  moreover have "length (m_tls (case counter of None \<Rightarrow> s | Some c \<Rightarrow> Store s c 1))
      = length (m_tls s)"
    by (cases counter) (simp_all add: Store_def)
  ultimately show "AddTask s me task counter = Inl (TlsIndexOutOfBounds FTL_INVALID_INDEX)"
    using assms by (simp add: AddTask_def Let_def)
next
  assume "me \<in> set (m_threads s)"
  then show lt: "GetCurrentThreadIndex s me < m_numThreads s"
    using GetCurrentThreadIndex_loop_present [of me "m_threads s" 0]
    by (simp add: GetCurrentThreadIndex_def m_numThreads_def)
  have "GetCurrentThreadIndex (case counter of None \<Rightarrow> s | Some c \<Rightarrow> Store s c 1) me
      = GetCurrentThreadIndex s me"
    by (cases counter) simp_all
  moreover have "length (m_tls (case counter of None \<Rightarrow> s | Some c \<Rightarrow> Store s c 1))
      = length (m_tls s)"
    by (cases counter) (simp_all add: Store_def)
  ultimately show "AddTask s me task counter =
      Inr (tls_update (case counter of None \<Rightarrow> s | Some c \<Rightarrow> Store s c 1)
             (GetCurrentThreadIndex s me)
             (\<lambda>tls. tls\<lparr>TaskQueue := TaskQueue tls @
                [\<lparr>TaskToExecute = task, TaskBundle.Counter = counter\<rparr>]\<rparr>))"
    using lt assms by (simp add: AddTask_def Let_def Push_def)
qed

theorem AddTask_thread_index_witness:
  "999 \<notin> set (m_threads example_scheduler)
   \<and> GetCurrentThreadIndex example_scheduler 999 = FTL_INVALID_INDEX
   \<and> AddTask example_scheduler 999 example_task None = Inl (TlsIndexOutOfBounds FTL_INVALID_INDEX)
   \<and> 101 \<in> set (m_threads example_scheduler)
   \<and> GetCurrentThreadIndex example_scheduler 101 = 1
   \<and> AddTask example_scheduler 101 example_task None =
       Inr (example_scheduler\<lparr>m_tls := [example_tls 0,
              (example_tls 1)\<lparr>TaskQueue :=
                 [\<lparr>TaskToExecute = example_task, TaskBundle.Counter = None\<rparr>]\<rparr>]\<rparr>)"
  using AddTask_thread_index [of example_scheduler 999 example_task None]
    AddTask_thread_index [of example_scheduler 101 example_task None]
  by (simp add: FTL_INVALID_INDEX_def example_simps)

section \<open>AddTask call by call, and AddTasks\<close>

lemma tls_update_twice:
  "idx < length (m_tls s) \<Longrightarrow>
     tls_update (tls_update s idx f) idx g = tls_update s idx (\<lambda>tls. g (f tls))"
  by (simp add: tls_update_def)

lemma tls_update_Store:
  "tls_update (Store s c x) idx f = Store (tls_update s idx f) c x"
  by (simp add: tls_update_def Store_def)

lemma Store_Store: "Store (Store s c x) c y = Store s c y"
  by (simp add: Store_def)

lemma length_tls_update [simp]: "length (m_tls (tls_update s idx f)) = length (m_tls s)"
  by (simp add: tls_update_def)

lemma length_tls_Store [simp]: "length (m_tls (Store s c x)) = length (m_tls s)"
  by (simp add: Store_def)

lemma Load_Store [simp]: "Load (Store s c x) c = x"
  by (simp add: Load_def Store_def)

lemma Load_tls_update [simp]: "Load (tls_update s idx f) c = Load s c"
  by (simp add: Load_def tls_update_def)

lemma tls_update_id:
  "idx < length (m_tls s) \<Longrightarrow> tls_update s idx (enqueue_all [] counter) = s"
  by (simp add: tls_update_def enqueue_all_def)

lemma AddTasks_loop_enqueues:
  "idx < length (m_tls s) \<Longrightarrow> i + n \<le> length tasks \<Longrightarrow>
     AddTasks_loop s idx tasks counter i n =
       Inr (tls_update s idx (enqueue_all (take n (drop i tasks)) counter))"
proof (induction n arbitrary: s i)
  case 0
  then show ?case by (simp add: tls_update_id)
next
  case (Suc n)
  let ?s1 = "tls_update s idx (\<lambda>tls. tls\<lparr>TaskQueue := Push (TaskQueue tls)
                \<lparr>TaskToExecute = tasks ! i, TaskBundle.Counter = counter\<rparr>\<rparr>)"
  from Suc.prems have i: "i < length tasks" by simp
  have "AddTasks_loop ?s1 idx tasks counter (Suc i) n =
      Inr (tls_update ?s1 idx (enqueue_all (take n (drop (Suc i) tasks)) counter))"
    using Suc.prems by (intro Suc.IH) simp_all
  moreover have "take (Suc n) (drop i tasks) = tasks ! i # take n (drop (Suc i) tasks)"
    using i by (simp add: Cons_nth_drop_Suc [symmetric])
  ultimately show ?case
    using i Suc.prems(1)
    by (simp add: tls_update_twice enqueue_all_def Push_def)
qed

lemma AddTask_worker:
  "GetCurrentThreadIndex s me < length (m_tls s) \<Longrightarrow>
     AddTask s me task counter =
       Inr (tls_update (case counter of None \<Rightarrow> s | Some c \<Rightarrow> Store s c 1)
              (GetCurrentThreadIndex s me) (enqueue_all [task] counter))"
  by (cases counter) (simp_all add: AddTask_def Let_def Push_def enqueue_all_def)

lemma AddTask_each_enqueues:
  "GetCurrentThreadIndex s me < length (m_tls s) \<Longrightarrow> tasks \<noteq> [] \<Longrightarrow>
     AddTask_each s me tasks counter =
       Inr (tls_update (case counter of None \<Rightarrow> s | Some c \<Rightarrow> Store s c 1)
              (GetCurrentThreadIndex s me) (enqueue_all tasks counter))"
proof (induction tasks arbitrary: s)
  case Nil
  then show ?case by simp
next
  case (Cons task tasks)
  let ?idx = "GetCurrentThreadIndex s me"
  let ?s0 = "case counter of None \<Rightarrow> s | Some c \<Rightarrow> Store s c 1"
  let ?s1 = "tls_update ?s0 ?idx (enqueue_all [task] counter)"
  have idx1: "GetCurrentThreadIndex ?s1 me = ?idx" by (cases counter) simp_all
  have len1: "length (m_tls ?s1) = length (m_tls s)" by (cases counter) simp_all
  have len0: "length (m_tls ?s0) = length (m_tls s)" by (cases counter) simp_all
  have again: "(case counter of None \<Rightarrow> ?s1 | Some c \<Rightarrow> Store ?s1 c 1) = ?s1"
    by (cases counter) (simp_all add: tls_update_Store Store_Store)
  have step: "AddTask s me task counter = Inr ?s1"
    using Cons.prems(1) by (rule AddTask_worker)
  show ?case
  proof (cases "tasks = []")
    case True
    with step show ?thesis by simp
  next
    case False
    have "AddTask_each ?s1 me tasks counter =
        Inr (tls_update (case counter of None \<Rightarrow> ?s1 | Some c \<Rightarrow> Store ?s1 c 1)
               (GetCurrentThreadIndex ?s1 me) (enqueue_all tasks counter))"
      using Cons.prems(1) False idx1 len1 by (intro Cons.IH) simp_all
    then have "AddTask_each ?s1 me tasks counter =
        Inr (tls_update ?s1 ?idx (enqueue_all tasks counter))"
      by (simp only: again idx1)
    moreover have "tls_update ?s1 ?idx (enqueue_all tasks counter)
        = tls_update ?s0 ?idx (enqueue_all (task # tasks) counter)"
      using Cons.prems(1) len0 by (simp add: tls_update_twice enqueue_all_def)
    ultimately show ?thesis using step by simp
  qed
qed

text \<open>
  Claim C3 as stated says that N separate \<open>AddTask\<close> calls leave the state of one
  \<open>AddTasks\<close> call. They do not for N = 2: both enqueue the same two bundles, but the
  counter holds 1 after the two \<open>AddTask\<close> calls and 2 after \<open>AddTasks\<close>.
\<close>

theorem AddTask_each_differs_from_AddTasks:
  "AddTask_each example_scheduler 100 [example_task, example_task] (Some 0)
     \<noteq> AddTasks example_scheduler 100 2 [example_task, example_task] (Some 0)
   \<and> (case (AddTask_each example_scheduler 100 [example_task, example_task] (Some 0),
             AddTasks example_scheduler 100 2 [example_task, example_task] (Some 0)) of
         (Inr s1, Inr s2) \<Rightarrow> Load s1 0 = 1 \<and> Load s2 0 = 2 \<and> m_tls s1 = m_tls s2
       | _ \<Rightarrow> False)"
proof -
  have loads: "(case (AddTask_each example_scheduler 100 [example_task, example_task] (Some 0),
             AddTasks example_scheduler 100 2 [example_task, example_task] (Some 0)) of
         (Inr s1, Inr s2) \<Rightarrow> Load s1 0 = 1 \<and> Load s2 0 = 2 \<and> m_tls s1 = m_tls s2
       | _ \<Rightarrow> False)"
    by (simp add: AddTask_def AddTasks_def Push_def numeral_2_eq_2 example_simps)
  then have "AddTask_each example_scheduler 100 [example_task, example_task] (Some 0)
     \<noteq> AddTasks example_scheduler 100 2 [example_task, example_task] (Some 0)"
    by (auto split: sum.splits)
  with loads show ?thesis by simp
qed

text \<open>
  Claim C3, amended. For every N >= 1 tasks and every counter (or none), called by a
  worker: one \<open>AddTasks\<close> call and N separate \<open>AddTask\<close> calls push the same N bundles, in
  the same order, on the worker's queue and change nothing else but the counter, which
  holds N after \<open>AddTasks\<close> and 1 after the \<open>AddTask\<close> calls (each call stores 1). The two
  states are equal exactly when there is no counter or N = 1.
\<close>

theorem AddTask_each_and_AddTasks:
  assumes worker: "GetCurrentThreadIndex s me < length (m_tls s)"
    and some: "tasks \<noteq> []"
  shows "AddTasks s me (length tasks) tasks counter =
           Inr (tls_update (case counter of None \<Rightarrow> s | Some c \<Rightarrow> Store s c (length tasks))
                  (GetCurrentThreadIndex s me) (enqueue_all tasks counter))
       \<and> AddTask_each s me tasks counter =
           Inr (tls_update (case counter of None \<Rightarrow> s | Some c \<Rightarrow> Store s c 1)
                  (GetCurrentThreadIndex s me) (enqueue_all tasks counter))
       \<and> ((AddTask_each s me tasks counter = AddTasks s me (length tasks) tasks counter)
            = (counter = None \<or> length tasks = 1))"
proof -
  let ?idx = "GetCurrentThreadIndex s me"
  let ?sN = "case counter of None \<Rightarrow> s | Some c \<Rightarrow> Store s c (length tasks)"
  let ?s1 = "case counter of None \<Rightarrow> s | Some c \<Rightarrow> Store s c 1"
  have idxN: "GetCurrentThreadIndex ?sN me = ?idx" by (cases counter) simp_all
  have lenN: "length (m_tls ?sN) = length (m_tls s)" by (cases counter) simp_all
  have "AddTasks_loop ?sN ?idx tasks counter 0 (length tasks) =
      Inr (tls_update ?sN ?idx (enqueue_all (take (length tasks) (drop 0 tasks)) counter))"
    using worker lenN by (intro AddTasks_loop_enqueues) simp_all
  then have many: "AddTasks s me (length tasks) tasks counter =
      Inr (tls_update ?sN ?idx (enqueue_all tasks counter))"
    using worker idxN lenN by (simp add: AddTasks_def Let_def)
  have each: "AddTask_each s me tasks counter =
      Inr (tls_update ?s1 ?idx (enqueue_all tasks counter))"
    using worker some by (rule AddTask_each_enqueues)
  have "(tls_update ?s1 ?idx (enqueue_all tasks counter)
          = tls_update ?sN ?idx (enqueue_all tasks counter))
        = (counter = None \<or> length tasks = 1)"
  proof (cases counter)
    case None
    then show ?thesis by simp
  next
    case (Some c)
    show ?thesis
    proof (cases "length tasks = 1")
      case True
      with Some show ?thesis by simp
    next
      case False
      have "Load (tls_update (Store s c 1) ?idx (enqueue_all tasks counter)) c
          \<noteq> Load (tls_update (Store s c (length tasks)) ?idx (enqueue_all tasks counter)) c"
        using False by simp
      then have "tls_update (Store s c 1) ?idx (enqueue_all tasks counter)
          \<noteq> tls_update (Store s c (length tasks)) ?idx (enqueue_all tasks counter)"
        by metis
      with Some False show ?thesis by simp
    qed
  qed
  with many each show ?thesis by simp
qed

theorem AddTask_each_and_AddTasks_witness:
  "AddTasks example_scheduler 100 2 [example_task, example_task] (Some 0) =
     Inr (tls_update (Store example_scheduler 0 2) 0
            (enqueue_all [example_task, example_task] (Some 0)))
   \<and> AddTask_each example_scheduler 100 [example_task, example_task] (Some 0) =
     Inr (tls_update (Store example_scheduler 0 1) 0
            (enqueue_all [example_task, example_task] (Some 0)))
   \<and> AddTask_each example_scheduler 100 [example_task] (Some 0)
       = AddTasks example_scheduler 100 1 [example_task] (Some 0)"
proof -
  have idx: "GetCurrentThreadIndex example_scheduler 100 = 0"
    by (simp add: example_scheduler_def GetCurrentThreadIndex_def)
  have worker: "GetCurrentThreadIndex example_scheduler 100 < length (m_tls example_scheduler)"
    by (simp add: example_scheduler_def GetCurrentThreadIndex_def)
  have two: "[example_task, example_task] \<noteq> []" and one: "[example_task] \<noteq> []"
    by simp_all
  have len: "length [example_task, example_task] = 2" "length [example_task] = 1"
    by simp_all
  show ?thesis
    using AddTask_each_and_AddTasks [OF worker two, of "Some 0"]
      AddTask_each_and_AddTasks [OF worker one, of "Some 0"]
    unfolding len idx by simp
qed

section \<open>Ready fibers go to the calling worker\<close>

lemma GetCurrentThreadIndex_updates [simp]:
  "GetCurrentThreadIndex (s\<lparr>counters := cs\<rparr>) me = GetCurrentThreadIndex s me"
  "GetCurrentThreadIndex (s\<lparr>storedFlags := h\<rparr>) me = GetCurrentThreadIndex s me"
  "GetCurrentThreadIndex (s\<lparr>m_freeFibers := fs\<rparr>) me = GetCurrentThreadIndex s me"
  "GetCurrentThreadIndex (s\<lparr>m_tls := ts\<rparr>) me = GetCurrentThreadIndex s me"
  by (simp_all add: GetCurrentThreadIndex_def)











section \<open>Who sets a free flag back to true\<close>

lemma freeFibers_tls_update [simp]: "m_freeFibers (tls_update s idx f) = m_freeFibers s"
  by (simp add: tls_update_def)

lemma freeFibers_Store [simp]: "m_freeFibers (Store s c x) = m_freeFibers s"
  by (simp add: Store_def)

lemma AddTask_freeFibers:
  "AddTask s me task counter = Inr s' \<Longrightarrow> m_freeFibers s' = m_freeFibers s"
  by (cases counter) (auto simp: AddTask_def Let_def split: if_splits)

lemma AddTasks_loop_freeFibers:
  "AddTasks_loop s idx tasks counter i n = Inr s' \<Longrightarrow> m_freeFibers s' = m_freeFibers s"
proof (induction n arbitrary: s i)
  case 0
  then show ?case by simp
next
  case (Suc n)
  then show ?case by (fastforce split: if_splits)
qed

lemma AddTasks_freeFibers:
  "AddTasks s me numTasks tasks counter = Inr s' \<Longrightarrow> m_freeFibers s' = m_freeFibers s"
  by (cases counter)
     (auto simp: AddTasks_def Let_def split: if_splits dest: AddTasks_loop_freeFibers)

lemma GetNextTask_steal_freeFibers:
  "GetNextTask_steal s cur threadIndex i = Inr (s', r) \<Longrightarrow> m_freeFibers s' = m_freeFibers s"
proof (induction s cur threadIndex i rule: GetNextTask_steal.induct)
  case (1 s cur threadIndex i)
  from "1.prems" show ?case
    by (subst (asm) GetNextTask_steal.simps)
       (auto split: if_splits option.splits dest: "1.IH")
qed

lemma GetNextTask_freeFibers:
  "GetNextTask s me = Inr (s', r) \<Longrightarrow> m_freeFibers s' = m_freeFibers s"
  by (auto simp: GetNextTask_def Let_def split: if_splits option.splits
      dest: GetNextTask_steal_freeFibers)

lemma GetNextFreeFiberIndex_freeFibers:
  "GetNextFreeFiberIndex s = Some (i, s') \<Longrightarrow>
     m_freeFibers s' = (m_freeFibers s)[i := atomic_store False memory_order_release]"
  by (auto simp: GetNextFreeFiberIndex_def split: option.splits)

lemma store_flag_freeFibers:
  "store_flag s p b mo = Inr s' \<Longrightarrow> m_freeFibers s' = m_freeFibers s"
  by (auto simp: store_flag_def split: option.splits)

lemma delete_flag_freeFibers:
  "delete_flag s p = Inr s' \<Longrightarrow> m_freeFibers s' = m_freeFibers s"
  by (auto simp: delete_flag_def split: option.splits)

lemma CleanUpOldFiber_freeFibers:
  "CleanUpOldFiber s me = Inr s' \<Longrightarrow>
     m_freeFibers s' =
       (if OldFiberDestination (m_tls s ! GetCurrentThreadIndex s me) = ToPool
        then (m_freeFibers s)[OldFiberIndex (m_tls s ! GetCurrentThreadIndex s me)
                 := atomic_store True memory_order_release]
        else m_freeFibers s)"
  by (auto simp: CleanUpOldFiber_def Let_def
      split: if_splits FiberDestination.splits sum.splits dest: store_flag_freeFibers)

lemma AddReadyFiber_freeFibers:
  "AddReadyFiber s me f p = Inr s' \<Longrightarrow> m_freeFibers s' = m_freeFibers s"
  by (auto simp: AddReadyFiber_def Let_def split: if_splits)

lemma SwitchFibers_state: "SwitchFibers s a b = Inr (s', r) \<Longrightarrow> s' = s"
  by (auto simp: SwitchFibers_def split: if_splits)

lemma AddFiberToWaitingList_True:
  "AddFiberToWaitingList s c f t p = Inr (True, s') \<Longrightarrow> Load s c = t"
  by (auto simp: AddFiberToWaitingList_def Load_def Let_def split: option.splits if_splits)

lemma WaitForCounter_enqueue_freeFibers:
  assumes "WaitForCounter_enqueue s idx cur free counter target pin = Inr (s', r)"
  shows "m_freeFibers s' =
       (if \<not> pin \<and> r = Returned
        then (m_freeFibers s)[free := atomic_store True memory_order_release]
        else m_freeFibers s)
     \<and> (\<not> pin \<and> r = Returned \<longrightarrow> Load s counter = target)"
proof (cases pin)
  case True
  with assms show ?thesis
    by (auto simp: WaitForCounter_enqueue_def dest: SwitchFibers_state)
next
  case False
  obtain p s2 where nf: "new_flag s False = (p, s2)" by (cases "new_flag s False")
  then have s2: "m_freeFibers s2 = m_freeFibers s" "counters s2 = counters s"
    by (auto simp: new_flag_def)
  from assms False nf obtain alreadyDone s3 where
    add: "AddFiberToWaitingList s2 counter (CurrentFiberIndex (m_tls s2 ! idx)) target p
            = Inr (alreadyDone, s3)"
    by (auto simp: WaitForCounter_enqueue_def split: sum.splits)
  from AddFiberToWaitingList_frame [OF add] s2 have s3: "m_freeFibers s3 = m_freeFibers s"
    by simp
  show ?thesis
  proof (cases alreadyDone)
    case True
    with add have "Load s2 counter = target" by (auto dest: AddFiberToWaitingList_True)
    then have "Load s counter = target" by (simp add: Load_def s2)
    moreover from assms False nf add True obtain s4 where
      "delete_flag s3 p = Inr s4" and
      "s' = s4\<lparr>m_freeFibers := (m_freeFibers s4)[free := atomic_store True memory_order_release]\<rparr>"
      and "r = Returned"
      by (auto simp: WaitForCounter_enqueue_def split: sum.splits)
    ultimately show ?thesis using False s3 by (auto dest: delete_flag_freeFibers)
  next
    case notdone: False
    with assms False nf add have
      sw: "SwitchFibers (tls_update s3 idx (\<lambda>tls. tls\<lparr>OldFiberIndex := cur,
             CurrentFiberIndex := free, OldFiberDestination := ToWaiting,
             OldFiberStoredFlag := p\<rparr>)) cur free = Inr (s', r)"
      by (auto simp: WaitForCounter_enqueue_def)
    then have "r \<noteq> Returned" by (auto simp: SwitchFibers_def split: if_splits)
    with sw s3 show ?thesis by (auto dest: SwitchFibers_state)
  qed
qed

lemma FiberStart_resume_freeFibers:
  "FiberStart_resume s idx w = Inr (s', r) \<Longrightarrow> m_freeFibers s' = m_freeFibers s"
  by (auto simp: FiberStart_resume_def Let_def dest: SwitchFibers_state)

lemma FiberStart_iteration_freeFibers:
  "FiberStart_iteration s me = Inr (s', r) \<Longrightarrow> m_freeFibers s' = m_freeFibers s"
  by (auto simp: FiberStart_iteration_def Let_def
      split: if_splits prod.splits sum.splits option.splits
      dest!: FiberStart_resume_freeFibers GetNextTask_freeFibers delete_flag_freeFibers)

lemma CheckWaitingFibers_freeFibers:
  "CheckWaitingFibers s deliver_to c x k n = Inr s' \<Longrightarrow> m_freeFibers s' = m_freeFibers s"
proof (induction n arbitrary: s k)
  case 0
  then show ?case by simp
next
  case (Suc n)
  from Suc.prems show ?case
    by (auto split: option.splits prod.splits if_splits sum.splits
        dest!: Suc.IH AddReadyFiber_freeFibers)
qed

lemma FiberStart_task_returned_freeFibers:
  "FiberStart_task_returned s me b deliver_to = Inr s' \<Longrightarrow> m_freeFibers s' = m_freeFibers s"
  by (auto simp: FiberStart_task_returned_def FetchSub_def Let_def
      split: option.splits dest!: CheckWaitingFibers_freeFibers)

lemma not_released_same: "m_freeFibers s' = m_freeFibers s \<Longrightarrow> \<not> released s s' i"
  by (simp add: released_def)

lemma state_of_Some: "state_of r = Some s' \<Longrightarrow> r = Inr s'"
  by (auto simp: state_of_def split: sum.splits)

lemma state_of_pair_Some: "state_of_pair r = Some s' \<Longrightarrow> \<exists>x. r = Inr (s', x)"
  by (auto simp: state_of_pair_def split: sum.splits)

text \<open>
  Claim C2 as stated says that only \<open>CleanUpOldFiber\<close> ever stores true into a free flag.
  Lines 452-476 of \<open>WaitForCounter\<close> do so as well: worker 0 has reserved fiber 2 for an
  unpinned wait on counter 0, the counter has reached the target, and the already-done
  path stores true into the free flag of fiber 2.
\<close>

theorem enqueue_already_done_releases:
  "run_section (In_WaitForCounter_enqueue 0 0 False 2) example_reserved 100
     = Some (Store example_scheduler 0 0)
   \<and> released example_reserved (Store example_scheduler 0 0) 2
   \<and> In_WaitForCounter_enqueue 0 0 False 2 \<noteq> In_CleanUpOldFiber"
proof -
  have "WaitForCounter_enqueue example_reserved 0 0 2 0 0 False =
      Inr (example_reserved\<lparr>m_freeFibers := (m_freeFibers example_reserved)
             [2 := atomic_store True memory_order_release]\<rparr>, Returned)"
    by (rule enqueue_already_done [of _ _ 0])
       (simp_all add: example_reserved_def example_simps)
  moreover have "example_reserved\<lparr>m_freeFibers := (m_freeFibers example_reserved)
             [2 := atomic_store True memory_order_release]\<rparr> = Store example_scheduler 0 0"
    by (simp add: example_reserved_def example_simps)
  ultimately show ?thesis
    by (simp add: state_of_pair_def released_def example_reserved_def example_simps)
qed

text \<open>
  Claim C2, amended. Whenever a section of scheduler code leaves a free flag holding true
  that held false before, the section is either \<open>CleanUpOldFiber\<close> in its \<open>ToPool\<close> branch,
  and the flag is that of \<open>OldFiberIndex\<close> of the calling worker, or the already-done path
  of an unpinned \<open>WaitForCounter\<close> (the counter holds the target value), and the flag is
  that of the replacement fiber the call had just reserved. No other section (\<open>AddTask\<close>,
  \<open>AddTasks\<close>, \<open>GetNextTask\<close>, \<open>GetNextFreeFiberIndex\<close>, \<open>AddReadyFiber\<close>, an iteration of
  the fiber loop, the decrement after a task) sets a free flag back to true.
\<close>

theorem released_only_by:
  assumes run: "run_section sec s me = Some s'"
    and rel: "released s s' i"
  shows "(sec = In_CleanUpOldFiber
          \<and> OldFiberDestination (m_tls s ! GetCurrentThreadIndex s me) = ToPool
          \<and> i = OldFiberIndex (m_tls s ! GetCurrentThreadIndex s me))
       \<or> (\<exists>counter. sec = In_WaitForCounter_enqueue counter (Load s counter) False i)"
proof (cases sec)
  case (In_AddTask task counter)
  with run have "m_freeFibers s' = m_freeFibers s"
    by (auto dest!: state_of_Some AddTask_freeFibers)
  with rel show ?thesis by (simp add: not_released_same)
next
  case (In_AddTasks numTasks tasks counter)
  with run have "m_freeFibers s' = m_freeFibers s"
    by (auto dest!: state_of_Some AddTasks_freeFibers)
  with rel show ?thesis by (simp add: not_released_same)
next
  case In_GetNextTask
  with run have "m_freeFibers s' = m_freeFibers s"
    by (auto dest!: state_of_pair_Some GetNextTask_freeFibers)
  with rel show ?thesis by (simp add: not_released_same)
next
  case In_GetNextFreeFiberIndex
  with run obtain j where "GetNextFreeFiberIndex s = Some (j, s')" by auto
  then have "m_freeFibers s' = (m_freeFibers s)[j := atomic_store False memory_order_release]"
    by (rule GetNextFreeFiberIndex_freeFibers)
  with rel have False
    by (cases "i = j") (auto simp: released_def atomic_store_def)
  then show ?thesis ..
next
  case In_CleanUpOldFiber
  with run have "CleanUpOldFiber s me = Inr s'" by (auto dest!: state_of_Some)
  from CleanUpOldFiber_freeFibers [OF this] rel In_CleanUpOldFiber show ?thesis
    by (cases "i = OldFiberIndex (m_tls s ! GetCurrentThreadIndex s me)")
       (auto simp: released_def split: if_splits)
next
  case (In_AddReadyFiber fiberIndex fiberStoredFlag)
  with run have "m_freeFibers s' = m_freeFibers s"
    by (auto dest!: state_of_Some AddReadyFiber_freeFibers)
  with rel show ?thesis by (simp add: not_released_same)
next
  case (In_WaitForCounter_enqueue counter target pin free)
  with run obtain r where
    "WaitForCounter_enqueue s (GetCurrentThreadIndex s me)
       (CurrentFiberIndex (m_tls s ! GetCurrentThreadIndex s me)) free counter target pin
     = Inr (s', r)"
    by (auto split: if_splits dest!: state_of_pair_Some)
  from WaitForCounter_enqueue_freeFibers [OF this] rel In_WaitForCounter_enqueue show ?thesis
    by (cases "i = free") (auto simp: released_def split: if_splits)
next
  case In_FiberStart_iteration
  with run have "m_freeFibers s' = m_freeFibers s"
    by (auto dest!: state_of_pair_Some FiberStart_iteration_freeFibers)
  with rel show ?thesis by (simp add: not_released_same)
next
  case (In_FiberStart_task_returned nextTask deliver_to)
  with run have "m_freeFibers s' = m_freeFibers s"
    by (auto dest!: state_of_Some FiberStart_task_returned_freeFibers)
  with rel show ?thesis by (simp add: not_released_same)
qed

theorem released_only_by_witness:
  "run_section In_CleanUpOldFiber example_resumed 100 = Some example_scheduler
   \<and> released example_resumed example_scheduler 2
   \<and> OldFiberDestination (m_tls example_resumed ! GetCurrentThreadIndex example_resumed 100) = ToPool
   \<and> OldFiberIndex (m_tls example_resumed ! GetCurrentThreadIndex example_resumed 100) = 2
   \<and> run_section (In_WaitForCounter_enqueue 0 0 False 2) example_reserved 100
       = Some (Store example_scheduler 0 0)
   \<and> released example_reserved (Store example_scheduler 0 0) 2
   \<and> Load example_reserved 0 = 0"
proof -
  have run1: "run_section In_CleanUpOldFiber example_resumed 100 = Some example_scheduler"
    by (simp add: state_of_def CleanUpOldFiber_def example_resumed_def example_simps)
  have rel1: "released example_resumed example_scheduler 2"
    by (simp add: released_def example_resumed_def example_simps)
  have "WaitForCounter_enqueue example_reserved 0 0 2 0 0 False =
      Inr (example_reserved\<lparr>m_freeFibers := (m_freeFibers example_reserved)
             [2 := atomic_store True memory_order_release]\<rparr>, Returned)"
    by (rule enqueue_already_done [of _ _ 0])
       (simp_all add: example_reserved_def example_simps)
  moreover have "example_reserved\<lparr>m_freeFibers := (m_freeFibers example_reserved)
             [2 := atomic_store True memory_order_release]\<rparr> = Store example_scheduler 0 0"
    by (simp add: example_reserved_def example_simps)
  ultimately have run2: "run_section (In_WaitForCounter_enqueue 0 0 False 2) example_reserved 100
       = Some (Store example_scheduler 0 0)"
    by (simp add: state_of_pair_def example_reserved_def example_simps)
  have rel2: "released example_reserved (Store example_scheduler 0 0) 2"
    by (simp add: released_def example_reserved_def example_simps)
  from released_only_by [OF run1 rel1] released_only_by [OF run2 rel2]
  show ?thesis using run1 rel1 run2 rel2
    by (simp add: example_reserved_def example_simps)
qed

section \<open>The priority order of the fiber loop\<close>

lemma pinned_first:
  "\<forall>x\<in>set pre. \<not> counter_reached s x \<Longrightarrow> counter_reached s b \<Longrightarrow>
     FiberStart_pinned s (pre @ b # post) = (FiberIndex b, pre @ post)"
  by (induction pre) (auto simp: counter_reached_def)

lemma pinned_none:
  "\<forall>x\<in>set xs. \<not> counter_reached s x \<Longrightarrow> FiberStart_pinned s xs = (FTL_INVALID_INDEX, xs)"
  by (induction xs) (auto simp: counter_reached_def)

lemma pinned_cases:
  "FiberStart_pinned s xs = (w, r) \<Longrightarrow>
     ((\<forall>x\<in>set xs. \<not> counter_reached s x) \<and> w = FTL_INVALID_INDEX \<and> r = xs)
     \<or> (\<exists>b\<in>set xs. counter_reached s b \<and> w = FiberIndex b)"
proof (induction xs arbitrary: w r)
  case Nil
  then show ?case by simp
next
  case (Cons b bs)
  show ?case
  proof (cases "counter_reached s b")
    case True
    with Cons.prems show ?thesis by (auto simp: counter_reached_def)
  next
    case False
    obtain w' r' where rec: "FiberStart_pinned s bs = (w', r')"
      by (cases "FiberStart_pinned s bs")
    with Cons.prems False have "w = w'" "r = b # r'"
      by (auto simp: counter_reached_def)
    with Cons.IH [OF rec] False show ?thesis by auto
  qed
qed

lemma ready_first:
  "\<forall>x\<in>set pre. stored_flag_is s False x \<Longrightarrow> stored_flag_is s True e \<Longrightarrow>
     FiberStart_ready (storedFlags s) (pre @ e # post) = Inr (fst e, Some (snd e), pre @ post)"
  by (induction pre)
     (auto simp: stored_flag_is_def atomic_load_def split: option.splits)

lemma ready_none:
  "\<forall>x\<in>set xs. stored_flag_is s False x \<Longrightarrow>
     FiberStart_ready (storedFlags s) xs = Inr (FTL_INVALID_INDEX, None, xs)"
  by (induction xs)
     (auto simp: stored_flag_is_def atomic_load_def split: option.splits)

lemma ready_cases:
  "FiberStart_ready (storedFlags s) xs = Inr (w, d, r) \<Longrightarrow>
     (d = None \<and> w = FTL_INVALID_INDEX \<and> r = xs \<and> (\<forall>x\<in>set xs. stored_flag_is s False x))
     \<or> (\<exists>e\<in>set xs. d = Some (snd e) \<and> w = fst e \<and> stored_flag_is s True e)"
proof (induction xs arbitrary: w d r)
  case Nil
  then show ?case by simp
next
  case (Cons e es)
  from Cons.prems obtain a where a: "map_of (storedFlags s) (snd e) = Some a"
    by (auto split: option.splits)
  show ?case
  proof (cases "held a")
    case True
    with Cons.prems a show ?thesis
      by (auto simp: stored_flag_is_def atomic_load_def)
  next
    case False
    with Cons.prems a obtain w' d' r' where
      rec: "FiberStart_ready (storedFlags s) es = Inr (w', d', r')"
      and res: "w = w'" "d = d'" "r = e # r'"
      by (auto simp: atomic_load_def split: sum.splits)
    from False a have "stored_flag_is s False e" by (simp add: stored_flag_is_def)
    with Cons.IH [OF rec] res show ?thesis by auto
  qed
qed

lemma delete_flag_live:
  "stored_flag_is s b e \<Longrightarrow>
     delete_flag s (snd e) = Inr (s\<lparr>storedFlags := filter (\<lambda>h. fst h \<noteq> snd e) (storedFlags s)\<rparr>)"
  by (auto simp: stored_flag_is_def delete_flag_def split: option.splits)

lemma tls_update_PinnedTasks_same:
  "idx < length (m_tls s) \<Longrightarrow>
     tls_update s idx (\<lambda>tls. tls\<lparr>PinnedTasks := PinnedTasks (m_tls s ! idx)\<rparr>) = s"
  by (simp add: tls_update_def)

lemma FiberStart_resume_outcome:
  "FiberStart_resume s idx w = Inr (s', r) \<Longrightarrow> \<exists>a b. r = SwitchToFiber a b"
  by (auto simp: FiberStart_resume_def SwitchFibers_def Let_def split: if_splits)

lemma FiberStart_iteration_pinned:
  assumes worker: "GetCurrentThreadIndex s me < length (m_tls s)"
    and list: "PinnedTasks (m_tls s ! GetCurrentThreadIndex s me) = pre @ b # post"
    and pre: "\<forall>x\<in>set pre. \<not> counter_reached s x"
    and b: "counter_reached s b"
    and valid: "FiberIndex b \<noteq> FTL_INVALID_INDEX"
  shows "FiberStart_iteration s me =
     FiberStart_resume
       (tls_update s (GetCurrentThreadIndex s me) (\<lambda>tls. tls\<lparr>PinnedTasks := pre @ post\<rparr>))
       (GetCurrentThreadIndex s me) (FiberIndex b)"
  using worker valid pinned_first [OF pre b, of post]
  by (simp add: FiberStart_iteration_def Let_def list)

lemma FiberStart_iteration_ready:
  assumes worker: "GetCurrentThreadIndex s me < length (m_tls s)"
    and pinned: "\<forall>x\<in>set (PinnedTasks (m_tls s ! GetCurrentThreadIndex s me)). \<not> counter_reached s x"
    and list: "ReadyFibers (m_tls s ! GetCurrentThreadIndex s me) = pre @ e # post"
    and pre: "\<forall>x\<in>set pre. stored_flag_is s False x"
    and e: "stored_flag_is s True e"
    and valid: "fst e \<noteq> FTL_INVALID_INDEX"
  shows "FiberStart_iteration s me =
     FiberStart_resume
       (tls_update (s\<lparr>storedFlags := filter (\<lambda>h. fst h \<noteq> snd e) (storedFlags s)\<rparr>)
          (GetCurrentThreadIndex s me) (\<lambda>tls. tls\<lparr>ReadyFibers := pre @ post\<rparr>))
       (GetCurrentThreadIndex s me) (fst e)"
  using worker valid pinned_none [OF pinned] ready_first [OF pre e, of post] delete_flag_live [OF e]
  by (simp add: FiberStart_iteration_def Let_def list tls_update_PinnedTasks_same)

lemma FiberStart_iteration_task:
  assumes worker: "GetCurrentThreadIndex s me < length (m_tls s)"
    and pinned: "\<forall>x\<in>set (PinnedTasks (m_tls s ! GetCurrentThreadIndex s me)). \<not> counter_reached s x"
    and ready: "\<forall>x\<in>set (ReadyFibers (m_tls s ! GetCurrentThreadIndex s me)). stored_flag_is s False x"
  shows "FiberStart_iteration s me = run_next_task s me"
  using worker pinned_none [OF pinned] ready_none [OF ready]
  by (simp add: FiberStart_iteration_def Let_def tls_update_PinnedTasks_same run_next_task_def)

lemma FiberStart_iteration_Execute:
  assumes worker: "GetCurrentThreadIndex s me < length (m_tls s)"
    and pinned_valid: "\<forall>x\<in>set (PinnedTasks (m_tls s ! GetCurrentThreadIndex s me)).
        FiberIndex x \<noteq> FTL_INVALID_INDEX"
    and ready_valid: "\<forall>x\<in>set (ReadyFibers (m_tls s ! GetCurrentThreadIndex s me)).
        fst x \<noteq> FTL_INVALID_INDEX"
    and run: "FiberStart_iteration s me = Inr (s', Execute t)"
  shows "(\<forall>x\<in>set (PinnedTasks (m_tls s ! GetCurrentThreadIndex s me)). \<not> counter_reached s x)
     \<and> (\<forall>x\<in>set (ReadyFibers (m_tls s ! GetCurrentThreadIndex s me)). stored_flag_is s False x)"
proof -
  let ?idx = "GetCurrentThreadIndex s me"
  obtain w1 pinned where scan1: "FiberStart_pinned s (PinnedTasks (m_tls s ! ?idx)) = (w1, pinned)"
    by (cases "FiberStart_pinned s (PinnedTasks (m_tls s ! ?idx))")
  from pinned_cases [OF scan1] show ?thesis
  proof (elim disjE conjE bexE)
    fix b
    assume "b \<in> set (PinnedTasks (m_tls s ! ?idx))" "counter_reached s b" "w1 = FiberIndex b"
    with pinned_valid have "w1 \<noteq> FTL_INVALID_INDEX" by simp
    with run worker scan1 have "\<exists>s0. FiberStart_resume s0 ?idx w1 = Inr (s', Execute t)"
      by (auto simp: FiberStart_iteration_def Let_def)
    then show ?thesis by (auto dest: FiberStart_resume_outcome)
  next
    assume none: "\<forall>x\<in>set (PinnedTasks (m_tls s ! ?idx)). \<not> counter_reached s x"
      and w1: "w1 = FTL_INVALID_INDEX" and same: "pinned = PinnedTasks (m_tls s ! ?idx)"
    have s1: "tls_update s ?idx (\<lambda>tls. tls\<lparr>PinnedTasks := pinned\<rparr>) = s"
      using worker same by (simp add: tls_update_PinnedTasks_same)
    from run worker scan1 w1 s1 obtain w d r where
      scan2: "FiberStart_ready (storedFlags s) (ReadyFibers (m_tls s ! ?idx)) = Inr (w, d, r)"
      by (auto simp: FiberStart_iteration_def Let_def split: sum.splits)
    from ready_cases [OF scan2] show ?thesis
    proof (elim disjE conjE bexE)
      assume "\<forall>x\<in>set (ReadyFibers (m_tls s ! ?idx)). stored_flag_is s False x"
      with none show ?thesis by simp
    next
      fix e
      assume e: "e \<in> set (ReadyFibers (m_tls s ! ?idx))" "d = Some (snd e)" "w = fst e"
        "stored_flag_is s True e"
      with ready_valid have "w \<noteq> FTL_INVALID_INDEX" by simp
      with run worker scan1 w1 s1 scan2 e delete_flag_live [OF e(4)]
      have "\<exists>s0. FiberStart_resume s0 ?idx w = Inr (s', Execute t)"
        by (auto simp: FiberStart_iteration_def Let_def)
      then show ?thesis by (auto dest: FiberStart_resume_outcome)
    qed
  qed
qed

text \<open>
  Claim C6. In an iteration of the fiber loop run by a worker (no waiting list holds the
  sentinel as a fiber index):
  first the pinned list: the first bundle whose counter holds its target value is erased
  and its fiber resumed, with no look at any stored flag;
  only if no pinned bundle matches, the ready list: the first entry whose stored flag holds
  true is erased, its stored flag deleted and its fiber resumed;
  if neither list yields a fiber, the iteration is \<open>GetNextTask\<close> and the call of the task;
  and a task is dequeued and executed only if no pinned bundle matches and no ready entry
  has its stored flag true. (\<open>FiberStart_resume\<close> sets \<open>OldFiberIndex\<close>, \<open>CurrentFiberIndex\<close>
  and \<open>OldFiberDestination = ToPool\<close> and switches.)
\<close>

theorem FiberStart_iteration_priority:
  assumes worker: "GetCurrentThreadIndex s me < length (m_tls s)"
    and pinned_valid: "\<forall>x\<in>set (PinnedTasks (m_tls s ! GetCurrentThreadIndex s me)).
        FiberIndex x \<noteq> FTL_INVALID_INDEX"
    and ready_valid: "\<forall>x\<in>set (ReadyFibers (m_tls s ! GetCurrentThreadIndex s me)).
        fst x \<noteq> FTL_INVALID_INDEX"
  shows "(\<forall>pre b post.
            PinnedTasks (m_tls s ! GetCurrentThreadIndex s me) = pre @ b # post
            \<and> (\<forall>x\<in>set pre. \<not> counter_reached s x) \<and> counter_reached s b
          \<longrightarrow> FiberStart_iteration s me =
                FiberStart_resume
                  (tls_update s (GetCurrentThreadIndex s me)
                     (\<lambda>tls. tls\<lparr>PinnedTasks := pre @ post\<rparr>))
                  (GetCurrentThreadIndex s me) (FiberIndex b))
       \<and> (\<forall>pre e post.
            (\<forall>x\<in>set (PinnedTasks (m_tls s ! GetCurrentThreadIndex s me)).
                \<not> counter_reached s x)
            \<and> ReadyFibers (m_tls s ! GetCurrentThreadIndex s me) = pre @ e # post
            \<and> (\<forall>x\<in>set pre. stored_flag_is s False x) \<and> stored_flag_is s True e
          \<longrightarrow> FiberStart_iteration s me =
                FiberStart_resume
                  (tls_update
                     (s\<lparr>storedFlags := filter (\<lambda>h. fst h \<noteq> snd e) (storedFlags s)\<rparr>)
                     (GetCurrentThreadIndex s me)
                     (\<lambda>tls. tls\<lparr>ReadyFibers := pre @ post\<rparr>))
                  (GetCurrentThreadIndex s me) (fst e))
       \<and> ((\<forall>x\<in>set (PinnedTasks (m_tls s ! GetCurrentThreadIndex s me)).
                \<not> counter_reached s x)
            \<and> (\<forall>x\<in>set (ReadyFibers (m_tls s ! GetCurrentThreadIndex s me)).
                stored_flag_is s False x)
          \<longrightarrow> FiberStart_iteration s me = run_next_task s me)
       \<and> (\<forall>s' t. FiberStart_iteration s me = Inr (s', Execute t)
          \<longrightarrow> (\<forall>x\<in>set (PinnedTasks (m_tls s ! GetCurrentThreadIndex s me)).
                  \<not> counter_reached s x)
              \<and> (\<forall>x\<in>set (ReadyFibers (m_tls s ! GetCurrentThreadIndex s me)).
                  stored_flag_is s False x))"
proof (intro conjI allI impI)
  fix pre b post
  assume "PinnedTasks (m_tls s ! GetCurrentThreadIndex s me) = pre @ b # post
      \<and> (\<forall>x\<in>set pre. \<not> counter_reached s x) \<and> counter_reached s b"
  moreover from this pinned_valid have "FiberIndex b \<noteq> FTL_INVALID_INDEX" by simp
  ultimately show "FiberStart_iteration s me =
      FiberStart_resume
        (tls_update s (GetCurrentThreadIndex s me) (\<lambda>tls. tls\<lparr>PinnedTasks := pre @ post\<rparr>))
        (GetCurrentThreadIndex s me) (FiberIndex b)"
    using worker by (intro FiberStart_iteration_pinned) simp_all
next
  fix pre e post
  assume "(\<forall>x\<in>set (PinnedTasks (m_tls s ! GetCurrentThreadIndex s me)). \<not> counter_reached s x)
      \<and> ReadyFibers (m_tls s ! GetCurrentThreadIndex s me) = pre @ e # post
      \<and> (\<forall>x\<in>set pre. stored_flag_is s False x) \<and> stored_flag_is s True e"
  moreover from this ready_valid have "fst e \<noteq> FTL_INVALID_INDEX" by simp
  ultimately show "FiberStart_iteration s me =
      FiberStart_resume
        (tls_update (s\<lparr>storedFlags := filter (\<lambda>h. fst h \<noteq> snd e) (storedFlags s)\<rparr>)
           (GetCurrentThreadIndex s me) (\<lambda>tls. tls\<lparr>ReadyFibers := pre @ post\<rparr>))
        (GetCurrentThreadIndex s me) (fst e)"
    using worker by (intro FiberStart_iteration_ready) simp_all
next
  assume "(\<forall>x\<in>set (PinnedTasks (m_tls s ! GetCurrentThreadIndex s me)). \<not> counter_reached s x)
      \<and> (\<forall>x\<in>set (ReadyFibers (m_tls s ! GetCurrentThreadIndex s me)). stored_flag_is s False x)"
  then show "FiberStart_iteration s me = run_next_task s me"
    using worker by (intro FiberStart_iteration_task) simp_all
next
  fix s' t
  assume "FiberStart_iteration s me = Inr (s', Execute t)"
  with FiberStart_iteration_Execute [OF worker pinned_valid ready_valid]
  show "\<forall>x\<in>set (PinnedTasks (m_tls s ! GetCurrentThreadIndex s me)). \<not> counter_reached s x"
    by blast
next
  fix s' t
  assume "FiberStart_iteration s me = Inr (s', Execute t)"
  with FiberStart_iteration_Execute [OF worker pinned_valid ready_valid]
  show "\<forall>x\<in>set (ReadyFibers (m_tls s ! GetCurrentThreadIndex s me)). stored_flag_is s False x"
    by blast
qed

lemmas example_loop_simps =
  example_loop_def counter_reached_def stored_flag_is_def FTL_INVALID_INDEX_def
  FiberStart_resume_def SwitchFibers_def run_next_task_def GetNextTask_def Pop_def

theorem FiberStart_iteration_priority_witness:
  "FiberStart_iteration example_loop 100 =
     Inr (tls_update example_loop 0
            (\<lambda>tls. tls\<lparr>PinnedTasks :=
                [\<lparr>FiberIndex = 3, PinnedWaitingFiberBundle.Counter = 0, TargetValue = 0\<rparr>],
              OldFiberIndex := 2, CurrentFiberIndex := 0, OldFiberDestination := ToPool\<rparr>),
          SwitchToFiber 2 0)
   \<and> FiberStart_iteration (Store example_loop 0 7) 100 =
     Inr (tls_update (Store example_loop 0 7\<lparr>storedFlags := [(1, atomic_new False)]\<rparr>) 0
            (\<lambda>tls. tls\<lparr>ReadyFibers := [(4, 1)],
              OldFiberIndex := 2, CurrentFiberIndex := 5, OldFiberDestination := ToPool\<rparr>),
          SwitchToFiber 2 5)
   \<and> FiberStart_iteration
       (Store example_loop 0 7\<lparr>storedFlags := [(1, atomic_new False), (2, atomic_new False)]\<rparr>)
       100 =
     Inr (tls_update
            (Store example_loop 0 7\<lparr>storedFlags := [(1, atomic_new False), (2, atomic_new False)]\<rparr>)
            0 (\<lambda>tls. tls\<lparr>TaskQueue := []\<rparr>),
          Execute \<lparr>TaskToExecute = example_task, TaskBundle.Counter = None\<rparr>)"
proof -
  let ?B = "Store example_loop 0 7"
  let ?C = "Store example_loop 0 7\<lparr>storedFlags := [(1, atomic_new False), (2, atomic_new False)]\<rparr>"
  have idx: "GetCurrentThreadIndex example_loop 100 = 0" "GetCurrentThreadIndex ?B 100 = 0"
    "GetCurrentThreadIndex ?C 100 = 0"
    by (simp_all add: example_loop_def example_simps)
  have worker: "GetCurrentThreadIndex s 100 < length (m_tls s)"
    and pinned_valid: "\<forall>x\<in>set (PinnedTasks (m_tls s ! GetCurrentThreadIndex s 100)).
        FiberIndex x \<noteq> FTL_INVALID_INDEX"
    and ready_valid: "\<forall>x\<in>set (ReadyFibers (m_tls s ! GetCurrentThreadIndex s 100)).
        fst x \<noteq> FTL_INVALID_INDEX"
    if "s = example_loop \<or> s = ?B \<or> s = ?C" for s
    using that by (auto simp: example_loop_def FTL_INVALID_INDEX_def example_simps)
  note pA = FiberStart_iteration_priority [OF worker pinned_valid ready_valid, of example_loop]
  note pB = FiberStart_iteration_priority [OF worker pinned_valid ready_valid, of ?B]
  note pC = FiberStart_iteration_priority [OF worker pinned_valid ready_valid, of ?C]
  have A: "FiberStart_iteration example_loop 100 =
     FiberStart_resume
       (tls_update example_loop 0 (\<lambda>tls. tls\<lparr>PinnedTasks :=
           [\<lparr>FiberIndex = 3, PinnedWaitingFiberBundle.Counter = 0, TargetValue = 0\<rparr>] @ []\<rparr>))
       0 (FiberIndex \<lparr>FiberIndex = 0, PinnedWaitingFiberBundle.Counter = 0, TargetValue = 1\<rparr>)"
    using pA [THEN conjunct1, rule_format,
        of "[\<lparr>FiberIndex = 3, PinnedWaitingFiberBundle.Counter = 0, TargetValue = 0\<rparr>]"
           "\<lparr>FiberIndex = 0, PinnedWaitingFiberBundle.Counter = 0, TargetValue = 1\<rparr>" "[]"]
    unfolding idx by (simp add: example_loop_simps example_simps)
  have B: "FiberStart_iteration ?B 100 =
     FiberStart_resume
       (tls_update (?B\<lparr>storedFlags := filter (\<lambda>h. fst h \<noteq> snd (5 :: nat, 2 :: nat)) (storedFlags ?B)\<rparr>)
          0 (\<lambda>tls. tls\<lparr>ReadyFibers := [(4, 1)] @ []\<rparr>))
       0 (fst (5 :: nat, 2 :: nat))"
    using pB [THEN conjunct2, THEN conjunct1, rule_format, of "[(4, 1)]" "(5, 2)" "[]"]
    unfolding idx by (simp add: example_loop_simps example_simps)
  have C: "FiberStart_iteration ?C 100 = run_next_task ?C 100"
    using pC [THEN conjunct2, THEN conjunct2, THEN conjunct1]
    unfolding idx by (simp add: example_loop_simps example_simps)
  show ?thesis
    unfolding A B C
    by (simp add: example_loop_simps example_simps)
qed

end
